theory Spec2Isabelle
  imports Complex_Main "HOL-Library.Word"
begin

section \<open>The module decoder as the glue code sees it\<close>

text \<open>
  The glue code of stemgen (\<^verbatim>\<open>interface.cpp\<close> in its variants) drives libopenmpt
  through a handful of calls: the constructor of \<^verbatim>\<open>openmpt::module\<close>, the getters, the
  mute setters of the interactive interface, \<^verbatim>\<open>read\<close> and \<^verbatim>\<open>read_interleaved_stereo\<close>,
  and the sample savers of the sound file. The decoder itself is external; a loaded song
  is a record of what those calls answer, together with the state they change.

  A \<^verbatim>\<open>float\<close> is kept as the \<^verbatim>\<open>double\<close> it was converted from: \<open>Float_of d\<close> stands for
  \<^verbatim>\<open>(float)d\<close>, and \<open>Float_of 0\<close> for the literal \<^verbatim>\<open>0.0f\<close>.
\<close>

datatype c_float = Float_of real

text \<open>What one call of \<^verbatim>\<open>read\<close> does: it renders some frames or throws.\<close>

datatype read_result = Frames nat | Raise

datatype exn = Decode_Failure

text \<open>The element type of the destination buffer of a read.\<close>

datatype elem = Int16 | Float32

fun elem_size :: "elem \<Rightarrow> nat" where
  "elem_size Int16 = 2"
| "elem_size Float32 = 4"

text \<open>
  Every completed read is logged: the overload called, the sample rate and frame count
  passed, the destination (the offset of the destination pointer from \<^verbatim>\<open>output\<close>,
  counted in elements) and the number of frames the decoder rendered there.
\<close>

record read_call =
  rc_stereo :: bool
  rc_samplerate :: "32 word"
  rc_count :: "32 word"
  rc_elem :: elem
  rc_dest :: nat
  rc_frames :: nat

text \<open>
  A loaded song. The first group of fields is what the getters report and which
  interfaces \<^verbatim>\<open>get_interface\<close> hands out (\<open>False\<close> is the null pointer); \<open>read_script\<close>
  gives the outcome of the k-th read of this song. The second group is the state the
  calls change: the mute flags, the stereo separation render parameter and the log of
  reads; at load time the flags hold whatever the module file says.
\<close>

record song =
  get_num_channels :: int
  get_num_instruments :: int
  get_num_samples :: int
  get_duration_seconds :: real
  interactive :: bool
  interactive2 :: bool
  SaveFLACSample :: "int \<Rightarrow> bool"
  SaveWAVSample :: "int \<Rightarrow> bool"
  read_script :: "nat \<Rightarrow> read_result"
  channel_mute :: "int \<Rightarrow> bool"
  instrument_mute :: "int \<Rightarrow> bool"
  stereo_separation :: "int option"
  calls :: "read_call list"

text \<open>
  The constructor \<^verbatim>\<open>openmpt::module(buffer, len, log, ctls)\<close>: it gets the initial ctls
  and the first \<^verbatim>\<open>len\<close> bytes of the buffer; \<open>None\<close> is the exception it throws on a
  buffer it cannot decode. Of the calls made on a loaded song, the reads can throw as
  well.
\<close>

type_synonym ctls = "string \<rightharpoonup> string"
type_synonym loader = "ctls \<Rightarrow> 8 word list \<Rightarrow> song option"

text \<open>
  Modelled from the spec: the setters of the decoder, which are not part of the sources
  (\<open>set_channel_muted (index, bool)\<close>, \<open>set_instrument_muted (index, bool)\<close> and
  \<open>set_stereo_separation (percent)\<close> in the specification). Each one stores its
  argument in the state of the song.
\<close>

definition set_channel_mute_status :: "song \<Rightarrow> int \<Rightarrow> bool \<Rightarrow> song" where
  "set_channel_mute_status s i mute = s\<lparr>channel_mute := (channel_mute s)(i := mute)\<rparr>"

definition set_instrument_mute_status :: "song \<Rightarrow> int \<Rightarrow> bool \<Rightarrow> song" where
  "set_instrument_mute_status s i mute = s\<lparr>instrument_mute := (instrument_mute s)(i := mute)\<rparr>"

definition set_render_param_stereoseparation :: "song \<Rightarrow> int \<Rightarrow> song" where
  "set_render_param_stereoseparation s percent = s\<lparr>stereo_separation := Some percent\<rparr>"

text \<open>
  Modelled from the spec: the reads of the decoder, which are not part of the sources
  (\<open>read_frames (count) -> frames_actually_produced\<close> in the specification, in a mono and
  an interleaved stereo variant). \<^verbatim>\<open>read(samplerate, count, dest)\<close> and
  \<^verbatim>\<open>read_interleaved_stereo(samplerate, count, dest)\<close> render what the script of the song
  gives for this read, at most \<open>count\<close> frames, at \<open>dest\<close>, and return how many frames they
  rendered; or they throw.
\<close>

definition read_frames ::
  "bool \<Rightarrow> song \<Rightarrow> 32 word \<Rightarrow> 32 word \<Rightarrow> elem \<Rightarrow> nat \<Rightarrow> exn + (nat \<times> song)" where
  "read_frames stereo s samplerate count el dest =
     (case read_script s (length (calls s)) of
        Raise \<Rightarrow> Inl Decode_Failure
      | Frames n \<Rightarrow>
          (let got = min n (unat count)
           in Inr (got, s\<lparr>calls := calls s @
                 [\<lparr>rc_stereo = stereo, rc_samplerate = samplerate, rc_count = count,
                   rc_elem = el, rc_dest = dest, rc_frames = got\<rparr>]\<rparr>)))"

definition read_interleaved_stereo ::
  "song \<Rightarrow> 32 word \<Rightarrow> 32 word \<Rightarrow> elem \<Rightarrow> nat \<Rightarrow> exn + (nat \<times> song)" where
  "read_interleaved_stereo = read_frames True"

definition read_mono ::
  "song \<Rightarrow> 32 word \<Rightarrow> 32 word \<Rightarrow> elem \<Rightarrow> nat \<Rightarrow> exn + (nat \<times> song)" where
  "read_mono = read_frames False"

section \<open>Song information\<close>

record SongInfo =
  num_channels :: int
  num_instruments :: int
  length_seconds :: c_float

definition info_zero :: SongInfo where
  "info_zero = \<lparr>num_channels = 0, num_instruments = 0, length_seconds = Float_of 0\<rparr>"

text \<open>\<^verbatim>\<open>get_song_info_c(buffer, len)\<close> of \<^verbatim>\<open>src/external/libopenmpt/interface.cpp\<close>.\<close>

definition get_song_info_c :: "loader \<Rightarrow> 8 word list \<Rightarrow> 32 word \<Rightarrow> SongInfo" where
  "get_song_info_c load buffer len =
     (let info = info_zero;
          ctls = Map.empty(''load.skip_plugins'' \<mapsto> ''1'')
      in case load ctls (take (unat len) buffer) of
           None \<Rightarrow> info
         | Some s \<Rightarrow>
            (let info = info\<lparr>num_channels := get_num_channels s\<rparr>;
                 info = info\<lparr>num_instruments := get_num_instruments s\<rparr>;
                 info = (if num_instruments info = 0
                         then info\<lparr>num_instruments := get_num_samples s\<rparr> else info);
                 info = info\<lparr>length_seconds := Float_of (get_duration_seconds s)\<rparr>
             in info))"

text \<open>
  \<^verbatim>\<open>get_song_info(buffer, len, dump_patterns)\<close>, the oldest variant of the entry point:
  it loads with samples and plugins skipped and copies the three getters. Its \<^verbatim>\<open>len\<close> is
  an \<^verbatim>\<open>int\<close>, and the constructor gets \<^verbatim>\<open>(size_t)len\<close>, a 64-bit value: a negative
  \<^verbatim>\<open>len\<close> becomes a size of \<open>2 ^ 64 + len\<close>, more than any buffer holds.
\<close>

definition get_song_info :: "loader \<Rightarrow> 8 word list \<Rightarrow> int \<Rightarrow> int \<Rightarrow> SongInfo" where
  "get_song_info load buffer len dump_patterns =
     (let info = info_zero;
          ctls = Map.empty(''load.skip_samples'' \<mapsto> ''1'', ''load.skip_plugins'' \<mapsto> ''1'')
      in case load ctls (take (unat (word_of_int len :: 64 word)) buffer) of
           None \<Rightarrow> info
         | Some s \<Rightarrow>
            (let info = info\<lparr>num_channels := get_num_channels s\<rparr>;
                 info = info\<lparr>num_instruments := get_num_instruments s\<rparr>;
                 info = info\<lparr>length_seconds := Float_of (get_duration_seconds s)\<rparr>
             in info))"

subsection \<open>Sample export\<close>

text \<open>
  \<^verbatim>\<open>sprintf(name, "%s_sample_%04d.flac", output_with_stem, i)\<close> writes into
  \<^verbatim>\<open>char name[4096]\<close>. \<open>fmt_04d\<close> is the conversion \<^verbatim>\<open>%04d\<close>: the decimal digits,
  filled with zeros on the left up to a width of four, the sign counting for the width.
\<close>

fun dec_digits :: "nat \<Rightarrow> string" where
  "dec_digits n =
     (if n < 10 then [''0123456789'' ! n]
      else dec_digits (n div 10) @ [''0123456789'' ! (n mod 10)])"

declare dec_digits.simps [simp del]

definition zero_fill :: "nat \<Rightarrow> string \<Rightarrow> string" where
  "zero_fill w ds = replicate (w - length ds) CHR ''0'' @ ds"

definition fmt_04d :: "int \<Rightarrow> string" where
  "fmt_04d i =
     (if i < 0 then CHR ''-'' # zero_fill 3 (dec_digits (nat (- i)))
      else zero_fill 4 (dec_digits (nat i)))"

definition sample_name :: "string \<Rightarrow> int \<Rightarrow> string \<Rightarrow> string" where
  "sample_name output_with_stem i ext = output_with_stem @ ''_sample_'' @ fmt_04d i @ ext"

text \<open>The name and its terminating zero byte have to fit the 4096 bytes of \<^verbatim>\<open>name\<close>.\<close>

definition fits_name :: "string \<Rightarrow> bool" where
  "fits_name name = (length name < 4096)"

definition SampleFormat_Flac :: int where
  "SampleFormat_Flac = 0"


text \<open>
  What the export leaves behind: the files opened, each with the sample index handed to
  the saver, in the order of the calls, and the lines printed on standard output.
\<close>

record export_log =
  files :: "(string \<times> int) list"
  stdout :: "string list"

datatype fault = Name_Overflow

definition failed_message :: "string \<Rightarrow> string" where
  "failed_message name = ''Failed to write sample: '' @ name @ [CHR 0x0A]"

text \<open>The body of the export loop for one index \<open>i\<close>.\<close>

definition export_sample :: "song \<Rightarrow> string \<Rightarrow> int \<Rightarrow> int \<Rightarrow> export_log \<Rightarrow> fault + export_log" where
  "export_sample sf output_with_stem sample_format i lg =
     (if sample_format = SampleFormat_Flac then
        (let name = sample_name output_with_stem i ''.flac''
         in if \<not> fits_name name then Inl Name_Overflow
            else
              (let lg = lg\<lparr>files := files lg @ [(name, i)]\<rparr>
               in if \<not> SaveFLACSample sf i
                  then Inr (lg\<lparr>stdout := stdout lg @ [failed_message name]\<rparr>)
                  else Inr lg))
      else
        (let name = sample_name output_with_stem i ''.wav''
         in if \<not> fits_name name then Inl Name_Overflow
            else
              (let lg = lg\<lparr>files := files lg @ [(name, i)]\<rparr>
               in if \<not> SaveWAVSample sf i
                  then Inr (lg\<lparr>stdout := stdout lg @ [failed_message name]\<rparr>)
                  else Inr lg)))"

text \<open>\<^verbatim>\<open>for (int i = 1; i < num_samples + 1; ++i)\<close>, entered at \<open>i\<close>.\<close>

function export_samples ::
  "song \<Rightarrow> string \<Rightarrow> int \<Rightarrow> int \<Rightarrow> int \<Rightarrow> export_log \<Rightarrow> fault + export_log" where
  "export_samples sf output_with_stem sample_format num_samples i lg =
     (if i < num_samples + 1 then
        (case export_sample sf output_with_stem sample_format i lg of
           Inl f \<Rightarrow> Inl f
         | Inr lg' \<Rightarrow> export_samples sf output_with_stem sample_format num_samples (i + 1) lg')
      else Inr lg)"
  by pat_completeness auto
termination
  by (relation "measure (\<lambda>(sf, stem, fmt, n, i, lg). nat (n + 1 - i))") auto

declare export_samples.simps [simp del]

text \<open>
  \<^verbatim>\<open>get_song_info_c(buffer, len, output_with_stem, sample_format)\<close> of the variant with
  sample export; \<open>None\<close> is the null pointer for \<^verbatim>\<open>output_with_stem\<close>. The sound file
  behind the song reports the song's own sample count.
\<close>

definition get_song_info_c_export ::
  "loader \<Rightarrow> 8 word list \<Rightarrow> 32 word \<Rightarrow> string option \<Rightarrow> int \<Rightarrow> fault + (SongInfo \<times> export_log)" where
  "get_song_info_c_export load buffer len output_with_stem sample_format =
     (let info = info_zero;
          lg = \<lparr>files = [], stdout = []\<rparr>;
          ctls = Map.empty(''load.skip_plugins'' \<mapsto> ''1'')
      in case load ctls (take (unat len) buffer) of
           None \<Rightarrow> Inr (info, lg)
         | Some s \<Rightarrow>
            (let info = info\<lparr>num_channels := get_num_channels s\<rparr>;
                 info = info\<lparr>num_instruments := get_num_instruments s\<rparr>;
                 info = (if num_instruments info = 0
                         then info\<lparr>num_instruments := get_num_samples s\<rparr> else info);
                 info = info\<lparr>length_seconds := Float_of (get_duration_seconds s)\<rparr>
             in case output_with_stem of
                  None \<Rightarrow> Inr (info, lg)
                | Some stem \<Rightarrow>
                    (let num_samples = get_num_samples s
                     in case export_samples s stem sample_format num_samples 1 lg of
                          Inl f \<Rightarrow> Inl f
                        | Inr lg' \<Rightarrow> Inr (info, lg'))))"





section \<open>Rendering\<close>

subsection \<open>Mute setup\<close>

text \<open>
  \<^verbatim>\<open>for (int i = 0; i < num_channels; ++i)\<close>, entered at \<open>i\<close>: every channel but
  \<open>channel_to_play\<close> is muted, and that one is unmuted.
\<close>

function mute_channels :: "int \<Rightarrow> int \<Rightarrow> int \<Rightarrow> song \<Rightarrow> song" where
  "mute_channels i channel_count channel_to_play s =
     (if i < channel_count then
        mute_channels (i + 1) channel_count channel_to_play
          (if i = channel_to_play then set_channel_mute_status s i False
           else set_channel_mute_status s i True)
      else s)"
  by pat_completeness auto
termination
  by (relation "measure (\<lambda>(i, n, c, s). nat (n - i))") auto

declare mute_channels.simps [simp del]

text \<open>\<^verbatim>\<open>for (int i = 0; i < instrument_count; ++i)\<close>, entered at \<open>i\<close>.\<close>

function mute_instruments :: "int \<Rightarrow> int \<Rightarrow> int \<Rightarrow> song \<Rightarrow> song" where
  "mute_instruments i instrument_count instrument_to_play s =
     (if i < instrument_count then
        mute_instruments (i + 1) instrument_count instrument_to_play
          (if i = instrument_to_play then set_instrument_mute_status s i False
           else set_instrument_mute_status s i True)
      else s)"
  by pat_completeness auto
termination
  by (relation "measure (\<lambda>(i, n, c, s). nat (n - i))") auto

declare mute_instruments.simps [simp del]

text \<open>
  The instrument count of the renderer, with the fallback for formats without
  instruments.
\<close>

definition instrument_count_of :: "song \<Rightarrow> int" where
  "instrument_count_of s =
     (let instrument_count = get_num_instruments s
      in if instrument_count = 0 then get_num_samples s else instrument_count)"

text \<open>
  The two guarded mute passes of \<^verbatim>\<open>song_render_c\<close> in
  \<^verbatim>\<open>src/external/libopenmpt/interface.cpp\<close>.
\<close>

definition mute_setup :: "int \<Rightarrow> int \<Rightarrow> song \<Rightarrow> song" where
  "mute_setup channel_to_play instrument_to_play s =
     (let channel_count = get_num_channels s;
          instrument_count = instrument_count_of s;
          s = (if channel_to_play \<ge> 0 \<and> interactive s
               then mute_channels 0 channel_count channel_to_play s else s);
          s = (if instrument_to_play \<ge> 0 \<and> interactive s
               then mute_instruments 0 instrument_count instrument_to_play s else s)
      in s)"

text \<open>
  The same passes in the variant that takes \<^verbatim>\<open>RenderParams\<close>: the instrument pass
  also asks for the \<^verbatim>\<open>interactive2\<close> interface.
\<close>

definition mute_setup_params :: "int \<Rightarrow> int \<Rightarrow> song \<Rightarrow> song" where
  "mute_setup_params channel_to_play instrument_to_play s =
     (let channel_count = get_num_channels s;
          instrument_count = instrument_count_of s;
          s = (if channel_to_play \<ge> 0 \<and> interactive s
               then mute_channels 0 channel_count channel_to_play s else s);
          s = (if instrument_to_play \<ge> 0 \<and> interactive s \<and> interactive2 s
               then mute_instruments 0 instrument_count instrument_to_play s else s)
      in s)"

subsection \<open>The chunked read loops\<close>

text \<open>
  \<^verbatim>\<open>for (uint32_t i = 0; i < output_len; i += sample_rate)\<close> over the 16-bit buffer,
  entered at \<open>i\<close> with the destination pointer \<open>output_16bit\<close> (an offset in elements)
  and the running total \<open>samples_generated\<close>. The index, the total and the products are
  32-bit and wrap. The first argument bounds the number of tests of the loop condition;
  \<open>None\<close> says that the loop is still running after that many.
\<close>

fun render_loop_16 ::
  "nat \<Rightarrow> 32 word \<Rightarrow> 32 word \<Rightarrow> bool \<Rightarrow> 32 word \<Rightarrow> nat \<Rightarrow> 32 word \<Rightarrow> song
     \<Rightarrow> (exn + (32 word \<times> song)) option" where
  "render_loop_16 0 output_len sample_rate stereo_output i output_16bit samples_generated s = None"
| "render_loop_16 (Suc fuel) output_len sample_rate stereo_output i output_16bit samples_generated s =
     (if i < output_len then
        (case (if stereo_output
               then read_interleaved_stereo s sample_rate sample_rate Int16 output_16bit
               else read_mono s sample_rate sample_rate Int16 output_16bit) of
           Inl e \<Rightarrow> Some (Inl e)
         | Inr (n, s') \<Rightarrow>
            (let gen_count = (of_nat n :: 32 word);
                 output_16bit = (if stereo_output then output_16bit + unat (sample_rate * 2)
                                 else output_16bit + unat sample_rate);
                 samples_generated = samples_generated + gen_count
             in if gen_count \<noteq> sample_rate then Some (Inr (samples_generated, s'))
                else render_loop_16 fuel output_len sample_rate stereo_output
                       (i + sample_rate) output_16bit samples_generated s'))
      else Some (Inr (samples_generated, s)))"

text \<open>The loop of the other branch, over the float buffer.\<close>

fun render_loop_float ::
  "nat \<Rightarrow> 32 word \<Rightarrow> 32 word \<Rightarrow> bool \<Rightarrow> 32 word \<Rightarrow> nat \<Rightarrow> 32 word \<Rightarrow> song
     \<Rightarrow> (exn + (32 word \<times> song)) option" where
  "render_loop_float 0 output_len sample_rate stereo_output i output_float samples_generated s = None"
| "render_loop_float (Suc fuel) output_len sample_rate stereo_output i output_float samples_generated s =
     (if i < output_len then
        (case (if stereo_output
               then read_interleaved_stereo s sample_rate sample_rate Float32 output_float
               else read_mono s sample_rate sample_rate Float32 output_float) of
           Inl e \<Rightarrow> Some (Inl e)
         | Inr (n, s') \<Rightarrow>
            (let gen_count = (of_nat n :: 32 word);
                 output_float = (if stereo_output then output_float + unat (sample_rate * 2)
                                 else output_float + unat sample_rate);
                 samples_generated = samples_generated + gen_count
             in if gen_count \<noteq> sample_rate then Some (Inr (samples_generated, s'))
                else render_loop_float fuel output_len sample_rate stereo_output
                       (i + sample_rate) output_float samples_generated s'))
      else Some (Inr (samples_generated, s)))"

declare render_loop_16.simps(2) [simp del]
declare render_loop_float.simps(2) [simp del]

text \<open>
  From \<^verbatim>\<open>if (bytes_per_sample == 2)\<close> to the \<^verbatim>\<open>return\<close> inside the \<^verbatim>\<open>try\<close> block:
  the loop chosen by \<open>bytes_per_sample\<close>, then the byte count. The song is returned with
  the count, for its log of reads.
\<close>

definition render_chunks ::
  "nat \<Rightarrow> 32 word \<Rightarrow> 32 word \<Rightarrow> 32 word \<Rightarrow> bool \<Rightarrow> song \<Rightarrow> (exn + (32 word \<times> song)) option" where
  "render_chunks fuel output_len sample_rate bytes_per_sample stereo_output s =
     (case (if bytes_per_sample = 2
            then render_loop_16 fuel output_len sample_rate stereo_output 0 0 0 s
            else render_loop_float fuel output_len sample_rate stereo_output 0 0 0 s) of
        None \<Rightarrow> None
      | Some (Inl e) \<Rightarrow> Some (Inl e)
      | Some (Inr (samples_generated, s')) \<Rightarrow>
          (if stereo_output then Some (Inr (samples_generated * 2 * bytes_per_sample, s'))
           else Some (Inr (samples_generated * bytes_per_sample, s'))))"

subsection \<open>The render entry points\<close>

text \<open>
  The \<^verbatim>\<open>try\<close> block of \<^verbatim>\<open>song_render_c\<close> in \<^verbatim>\<open>src/external/libopenmpt/interface.cpp\<close>:
  \<open>Inl\<close> is the exception that leaves it.
\<close>

definition song_render_try ::
  "nat \<Rightarrow> loader \<Rightarrow> 32 word \<Rightarrow> 8 word list \<Rightarrow> 32 word \<Rightarrow> 32 word \<Rightarrow> 32 word \<Rightarrow> int \<Rightarrow> int \<Rightarrow> bool
     \<Rightarrow> (exn + (32 word \<times> song)) option" where
  "song_render_try fuel load output_len input len sample_rate bytes_per_sample
       channel_to_play instrument_to_play stereo_output =
     (case load Map.empty (take (unat len) input) of
        None \<Rightarrow> Some (Inl Decode_Failure)
      | Some s \<Rightarrow>
          render_chunks fuel output_len sample_rate bytes_per_sample stereo_output
            (mute_setup channel_to_play instrument_to_play s))"

text \<open>
  \<^verbatim>\<open>song_render_c\<close>: the value of the \<^verbatim>\<open>try\<close> block, or 0 after the \<^verbatim>\<open>catch\<close>.
\<close>

definition song_render_c ::
  "nat \<Rightarrow> loader \<Rightarrow> 32 word \<Rightarrow> 8 word list \<Rightarrow> 32 word \<Rightarrow> 32 word \<Rightarrow> 32 word \<Rightarrow> int \<Rightarrow> int \<Rightarrow> bool
     \<Rightarrow> 32 word option" where
  "song_render_c fuel load output_len input len sample_rate bytes_per_sample
       channel_to_play instrument_to_play stereo_output =
     (case song_render_try fuel load output_len input len sample_rate bytes_per_sample
             channel_to_play instrument_to_play stereo_output of
        None \<Rightarrow> None
      | Some (Inl e) \<Rightarrow> Some 0
      | Some (Inr (bytes, s)) \<Rightarrow> Some bytes)"

text \<open>The variant that takes its settings in a \<^verbatim>\<open>RenderParams\<close> structure.\<close>

record RenderParams =
  rp_sample_rate :: "32 word"
  rp_bytes_per_sample :: "32 word"
  rp_channel_to_play :: int
  rp_instrument_to_play :: int
  rp_stereo_separation :: int
  rp_stereo_separation_enabled :: bool
  rp_stereo_output :: bool

definition song_render_params_try ::
  "nat \<Rightarrow> loader \<Rightarrow> 32 word \<Rightarrow> 8 word list \<Rightarrow> 32 word \<Rightarrow> RenderParams
     \<Rightarrow> (exn + (32 word \<times> song)) option" where
  "song_render_params_try fuel load output_len input len params =
     (case load (Map.empty(''play.at_end'' \<mapsto> ''stop'')) (take (unat len) input) of
        None \<Rightarrow> Some (Inl Decode_Failure)
      | Some s \<Rightarrow>
          (let s = (if rp_stereo_separation_enabled params
                    then set_render_param_stereoseparation s (rp_stereo_separation params)
                    else s);
               s = mute_setup_params (rp_channel_to_play params) (rp_instrument_to_play params) s
           in render_chunks fuel output_len (rp_sample_rate params) (rp_bytes_per_sample params)
                (rp_stereo_output params) s))"

definition song_render_c_params ::
  "nat \<Rightarrow> loader \<Rightarrow> 32 word \<Rightarrow> 8 word list \<Rightarrow> 32 word \<Rightarrow> RenderParams \<Rightarrow> 32 word option" where
  "song_render_c_params fuel load output_len input len params =
     (case song_render_params_try fuel load output_len input len params of
        None \<Rightarrow> None
      | Some (Inl e) \<Rightarrow> Some 0
      | Some (Inr (bytes, s)) \<Rightarrow> Some bytes)"

subsection \<open>What a render leaves in the output buffer\<close>

text \<open>
  A read that rendered \<open>rc_frames\<close> frames wrote one element per frame, or two when
  interleaved, from its destination on. \<open>write_end\<close> is the offset in bytes, from the
  start of \<^verbatim>\<open>output\<close>, of the first byte after what the read wrote, and \<open>bytes_extent\<close>
  the largest such offset over a log.
\<close>

definition write_end :: "read_call \<Rightarrow> nat" where
  "write_end c =
     elem_size (rc_elem c) * (rc_dest c + rc_frames c * (if rc_stereo c then 2 else 1))"

definition bytes_extent :: "read_call list \<Rightarrow> nat" where
  "bytes_extent cs = fold (\<lambda>c m. if rc_frames c = 0 then m else max (write_end c) m) cs 0"

definition total_frames :: "read_call list \<Rightarrow> nat" where
  "total_frames cs = sum_list (map rc_frames cs)"

text \<open>
  The log entry of a read of one chunk, and the number of elements the destination
  pointer moves after it: \<^verbatim>\<open>sample_rate * 2\<close>, a 32-bit product, or \<^verbatim>\<open>sample_rate\<close>.
\<close>

definition chunk_call :: "bool \<Rightarrow> 32 word \<Rightarrow> elem \<Rightarrow> nat \<Rightarrow> nat \<Rightarrow> read_call" where
  "chunk_call st sr el dest n =
     \<lparr>rc_stereo = st, rc_samplerate = sr, rc_count = sr, rc_elem = el, rc_dest = dest, rc_frames = n\<rparr>"

definition chunk_step :: "bool \<Rightarrow> 32 word \<Rightarrow> nat" where
  "chunk_step st sr = (if st then unat (sr * 2) else unat sr)"

text \<open>
  What a result of a read loop says about its control flow: the outcome, the running
  total and, for every read, all of its log entry but the element type of the
  destination.
\<close>

definition control_of :: "read_call \<Rightarrow> bool \<times> 32 word \<times> 32 word \<times> nat \<times> nat" where
  "control_of c = (rc_stereo c, rc_samplerate c, rc_count c, rc_dest c, rc_frames c)"

definition control_view ::
  "(exn + (32 word \<times> song)) option
     \<Rightarrow> (exn + (32 word \<times> (bool \<times> 32 word \<times> 32 word \<times> nat \<times> nat) list)) option" where
  "control_view r = map_option (map_sum id (\<lambda>(sg, s). (sg, map control_of (calls s)))) r"

text \<open>The number of chunks of \<open>sample_rate\<close> frames that cover \<open>output_len\<close>.\<close>

definition chunk_bound :: "32 word \<Rightarrow> 32 word \<Rightarrow> nat" where
  "chunk_bound output_len sample_rate =
     (unat output_len + unat sample_rate - 1) div unat sample_rate"

section \<open>Example songs\<close>

text \<open>
  A four-channel module without instruments and with sixteen samples whose decoder
  renders every chunk in full, and a loader that decodes every buffer to it.
\<close>

definition mod_song :: song where
  "mod_song =
     \<lparr>get_num_channels = 4, get_num_instruments = 0, get_num_samples = 16,
      get_duration_seconds = 3, interactive = True, interactive2 = True,
      SaveFLACSample = (\<lambda>i. i \<noteq> 2), SaveWAVSample = (\<lambda>i. True),
      read_script = (\<lambda>k. Frames 8000),
      channel_mute = (\<lambda>i. False), instrument_mute = (\<lambda>i. False),
      stereo_separation = None, calls = []\<rparr>"

definition load_mod :: loader where
  "load_mod ctls bytes = Some mod_song"

text \<open>
  The same module as a song of 3.35 seconds decoded at 48000 frames per second: three
  full chunks, one of 16800 frames, then the end of the song.
\<close>

definition song_3_35 :: song where
  "song_3_35 =
     mod_song\<lparr>read_script :=
       (\<lambda>k. if k < 3 then Frames 48000 else if k = 3 then Frames 16800 else Frames 0)\<rparr>"

definition load_3_35 :: loader where
  "load_3_35 ctls bytes = Some song_3_35"

text \<open>A song whose decoder throws at its third read.\<close>

definition song_throws :: song where
  "song_throws = mod_song\<lparr>read_script := (\<lambda>k. if k < 2 then Frames 8000 else Raise)\<rparr>"

definition load_throws :: loader where
  "load_throws ctls bytes = Some song_throws"





text \<open>A song that loads with its instrument 5 and its channel 3 muted.\<close>

definition song_muted :: song where
  "song_muted = mod_song\<lparr>channel_mute := (\<lambda>i. i = 3), instrument_mute := (\<lambda>j. j = 5)\<rparr>"

text \<open>
  A song decoded at \<open>2 ^ 30\<close> frames per second whose decoder renders five full chunks
  before the song ends.
\<close>

definition song_long :: song where
  "song_long =
     mod_song\<lparr>read_script := (\<lambda>k. if k < 5 then Frames 1073741824 else Frames 0)\<rparr>"

text \<open>A loader that rejects every buffer.\<close>

definition load_fails :: loader where
  "load_fails ctls bytes = None"

section \<open>Properties of the mute setup\<close>

text \<open>
  A mute pass that starts at \<open>i\<close> rewrites the flags from \<open>i\<close> up to the count and
  nothing else of the song.
\<close>

lemma mute_channels_eq:
  "mute_channels i n c s =
     s\<lparr>channel_mute := (\<lambda>k. if i \<le> k \<and> k < n then k \<noteq> c else channel_mute s k)\<rparr>"
proof (induction i n c s rule: mute_channels.induct)
  case (1 i n c s)
  show ?case
  proof (cases "i < n")
    case True
    define s1 where "s1 = (if i = c then set_channel_mute_status s i False else set_channel_mute_status s i True)"
    have s1: "s1 = s\<lparr>channel_mute := (channel_mute s)(i := i \<noteq> c)\<rparr>"
      by (simp add: s1_def set_channel_mute_status_def)
    have feq: "(\<lambda>k. if i + 1 \<le> k \<and> k < n then k \<noteq> c else ((channel_mute s)(i := i \<noteq> c)) k)
          = (\<lambda>k. if i \<le> k \<and> k < n then k \<noteq> c else channel_mute s k)"
      using True by (auto simp: fun_eq_iff)
    have "mute_channels i n c s = mute_channels (i + 1) n c s1"
      using True by (subst mute_channels.simps) (simp add: s1_def)
    also have "\<dots> = s1\<lparr>channel_mute :=
        (\<lambda>k. if i + 1 \<le> k \<and> k < n then k \<noteq> c else channel_mute s1 k)\<rparr>"
      using 1 [OF True] by (simp only: s1_def)
    also have "\<dots> = s\<lparr>channel_mute :=
        (\<lambda>k. if i + 1 \<le> k \<and> k < n then k \<noteq> c else ((channel_mute s)(i := i \<noteq> c)) k)\<rparr>"
      by (simp add: s1)
    finally show ?thesis
      by (simp only: feq)
  next
    case False
    then show ?thesis
      by (subst mute_channels.simps) simp
  qed
qed

lemma mute_instruments_eq:
  "mute_instruments i n c s =
     s\<lparr>instrument_mute := (\<lambda>k. if i \<le> k \<and> k < n then k \<noteq> c else instrument_mute s k)\<rparr>"
proof (induction i n c s rule: mute_instruments.induct)
  case (1 i n c s)
  show ?case
  proof (cases "i < n")
    case True
    define s1 where "s1 = (if i = c then set_instrument_mute_status s i False else set_instrument_mute_status s i True)"
    have s1: "s1 = s\<lparr>instrument_mute := (instrument_mute s)(i := i \<noteq> c)\<rparr>"
      by (simp add: s1_def set_instrument_mute_status_def)
    have feq: "(\<lambda>k. if i + 1 \<le> k \<and> k < n then k \<noteq> c else ((instrument_mute s)(i := i \<noteq> c)) k)
          = (\<lambda>k. if i \<le> k \<and> k < n then k \<noteq> c else instrument_mute s k)"
      using True by (auto simp: fun_eq_iff)
    have "mute_instruments i n c s = mute_instruments (i + 1) n c s1"
      using True by (subst mute_instruments.simps) (simp add: s1_def)
    also have "\<dots> = s1\<lparr>instrument_mute :=
        (\<lambda>k. if i + 1 \<le> k \<and> k < n then k \<noteq> c else instrument_mute s1 k)\<rparr>"
      using 1 [OF True] by (simp only: s1_def)
    also have "\<dots> = s\<lparr>instrument_mute :=
        (\<lambda>k. if i + 1 \<le> k \<and> k < n then k \<noteq> c else ((instrument_mute s)(i := i \<noteq> c)) k)\<rparr>"
      by (simp add: s1)
    finally show ?thesis
      by (simp only: feq)
  next
    case False
    then show ?thesis
      by (subst mute_instruments.simps) simp
  qed
qed

lemma mute_channels_sel [simp]:
  "instrument_mute (mute_channels i n c s) = instrument_mute s"
  "interactive (mute_channels i n c s) = interactive s"
  "interactive2 (mute_channels i n c s) = interactive2 s"
  "get_num_channels (mute_channels i n c s) = get_num_channels s"
  "get_num_instruments (mute_channels i n c s) = get_num_instruments s"
  "get_num_samples (mute_channels i n c s) = get_num_samples s"
  "read_script (mute_channels i n c s) = read_script s"
  "calls (mute_channels i n c s) = calls s"
  by (simp_all add: mute_channels_eq)

lemma mute_instruments_sel [simp]:
  "channel_mute (mute_instruments i n c s) = channel_mute s"
  "interactive (mute_instruments i n c s) = interactive s"
  "interactive2 (mute_instruments i n c s) = interactive2 s"
  "get_num_channels (mute_instruments i n c s) = get_num_channels s"
  "get_num_instruments (mute_instruments i n c s) = get_num_instruments s"
  "get_num_samples (mute_instruments i n c s) = get_num_samples s"
  "read_script (mute_instruments i n c s) = read_script s"
  "calls (mute_instruments i n c s) = calls s"
  by (simp_all add: mute_instruments_eq)

lemma mute_channels_flag:
  "channel_mute (mute_channels i n c s) k =
     (if i \<le> k \<and> k < n then k \<noteq> c else channel_mute s k)"
  by (simp add: mute_channels_eq)

lemma mute_instruments_flag:
  "instrument_mute (mute_instruments i n c s) k =
     (if i \<le> k \<and> k < n then k \<noteq> c else instrument_mute s k)"
  by (simp add: mute_instruments_eq)

lemma mute_setup_channel_mute:
  "channel_mute (mute_setup c t s) k =
     (if 0 \<le> c \<and> interactive s \<and> 0 \<le> k \<and> k < get_num_channels s then k \<noteq> c
      else channel_mute s k)"
proof -
  define s1 where
    "s1 = (if 0 \<le> c \<and> interactive s then mute_channels 0 (get_num_channels s) c s else s)"
  have "mute_setup c t s =
      (if 0 \<le> t \<and> interactive s1 then mute_instruments 0 (instrument_count_of s) t s1 else s1)"
    by (simp only: mute_setup_def Let_def s1_def)
  then have "channel_mute (mute_setup c t s) k = channel_mute s1 k"
    by simp
  also have "\<dots> = (if 0 \<le> c \<and> interactive s \<and> 0 \<le> k \<and> k < get_num_channels s then k \<noteq> c
      else channel_mute s k)"
    by (simp add: s1_def mute_channels_flag)
  finally show ?thesis .
qed

lemma mute_setup_instrument_mute:
  "instrument_mute (mute_setup c t s) k =
     (if 0 \<le> t \<and> interactive s \<and> 0 \<le> k \<and> k < instrument_count_of s then k \<noteq> t
      else instrument_mute s k)"
proof -
  define s1 where
    "s1 = (if 0 \<le> c \<and> interactive s then mute_channels 0 (get_num_channels s) c s else s)"
  have s1: "interactive s1 = interactive s" "instrument_mute s1 = instrument_mute s"
    by (simp_all add: s1_def)
  have "mute_setup c t s =
      (if 0 \<le> t \<and> interactive s1 then mute_instruments 0 (instrument_count_of s) t s1 else s1)"
    by (simp only: mute_setup_def Let_def s1_def)
  then show ?thesis
    by (simp add: s1 mute_instruments_flag)
qed

lemma mute_setup_params_channel_mute:
  "channel_mute (mute_setup_params c t s) k =
     (if 0 \<le> c \<and> interactive s \<and> 0 \<le> k \<and> k < get_num_channels s then k \<noteq> c
      else channel_mute s k)"
proof -
  define s1 where
    "s1 = (if 0 \<le> c \<and> interactive s then mute_channels 0 (get_num_channels s) c s else s)"
  have "mute_setup_params c t s =
      (if 0 \<le> t \<and> interactive s1 \<and> interactive2 s1
       then mute_instruments 0 (instrument_count_of s) t s1 else s1)"
    by (simp only: mute_setup_params_def Let_def s1_def)
  then have "channel_mute (mute_setup_params c t s) k = channel_mute s1 k"
    by simp
  also have "\<dots> = (if 0 \<le> c \<and> interactive s \<and> 0 \<le> k \<and> k < get_num_channels s then k \<noteq> c
      else channel_mute s k)"
    by (simp add: s1_def mute_channels_flag)
  finally show ?thesis .
qed

lemma mute_setup_params_instrument_mute:
  "instrument_mute (mute_setup_params c t s) k =
     (if 0 \<le> t \<and> interactive s \<and> interactive2 s \<and> 0 \<le> k \<and> k < instrument_count_of s
      then k \<noteq> t else instrument_mute s k)"
proof -
  define s1 where
    "s1 = (if 0 \<le> c \<and> interactive s then mute_channels 0 (get_num_channels s) c s else s)"
  have s1: "interactive s1 = interactive s" "interactive2 s1 = interactive2 s"
      "instrument_mute s1 = instrument_mute s"
    by (simp_all add: s1_def)
  have "mute_setup_params c t s =
      (if 0 \<le> t \<and> interactive s1 \<and> interactive2 s1
       then mute_instruments 0 (instrument_count_of s) t s1 else s1)"
    by (simp only: mute_setup_params_def Let_def s1_def)
  then show ?thesis
    by (simp add: s1 mute_instruments_flag)
qed

lemma mute_setup_keeps [simp]:
  "calls (mute_setup c t s) = calls s"
  "read_script (mute_setup c t s) = read_script s"
  "calls (mute_setup_params c t s) = calls s"
  "read_script (mute_setup_params c t s) = read_script s"
  by (simp_all add: mute_setup_def mute_setup_params_def Let_def)

lemmas mute_setup_flags =
  mute_setup_channel_mute mute_setup_instrument_mute
  mute_setup_params_channel_mute mute_setup_params_instrument_mute

text \<open>With both indices -1 neither pass runs.\<close>

lemma mute_setup_full_mix:
  "mute_setup (- 1) (- 1) s = s" "mute_setup_params (- 1) (- 1) s = s"
  by (simp_all add: mute_setup_def mute_setup_params_def Let_def)

section \<open>Properties of the read loops\<close>

text \<open>
  One test of the loop condition has four outcomes: the index has reached \<open>output_len\<close>,
  the read throws, the read comes back short, or the chunk is full and the loop goes on.
\<close>

lemma read_choice [simp]:
  "(if st then read_interleaved_stereo s a b el d else read_mono s a b el d) = read_frames st s a b el d"
  by (simp add: read_interleaved_stereo_def read_mono_def)

lemma full_chunk_iff:
  "n \<le> unat (sr :: 32 word) \<Longrightarrow> ((of_nat n :: 32 word) = sr) = (n = unat sr)"
proof
  assume "(of_nat n :: 32 word) = sr"
  then have "unat (of_nat n :: 32 word) = unat sr"
    by simp
  moreover assume "n \<le> unat sr"
  ultimately show "n = unat sr"
    by (simp add: le_unat_uoi)
next
  assume "n = unat sr"
  then show "(of_nat n :: 32 word) = sr"
    by simp
qed


lemma render_loop_16_exit:
  "\<not> i < ol \<Longrightarrow> render_loop_16 (Suc fuel) ol sr st i out sg s = Some (Inr (sg, s))"
  by (simp add: render_loop_16.simps(2))

lemma render_loop_16_throw:
  "i < ol \<Longrightarrow> read_script s (length (calls s)) = Raise \<Longrightarrow>
     render_loop_16 (Suc fuel) ol sr st i out sg s = Some (Inl Decode_Failure)"
  by (simp add: render_loop_16.simps(2) read_frames_def)

lemma render_loop_16_partial:
  assumes "i < ol" and "read_script s (length (calls s)) = Frames n" and "n < unat sr"
  shows "render_loop_16 (Suc fuel) ol sr st i out sg s =
     Some (Inr (sg + of_nat n, s\<lparr>calls := calls s @ [chunk_call st sr Int16 out n]\<rparr>))"
proof -
  have "min n (unat sr) = n"
    using assms(3) by simp
  then have rf: "read_frames st s sr sr Int16 out =
      Inr (n, s\<lparr>calls := calls s @ [chunk_call st sr Int16 out n]\<rparr>)"
    using assms(2) by (simp add: read_frames_def chunk_call_def Let_def)
  have "(of_nat n :: 32 word) \<noteq> sr"
    using assms(3) by (simp add: full_chunk_iff)
  with assms(1) rf show ?thesis
    by (simp add: render_loop_16.simps(2) Let_def)
qed

lemma render_loop_16_full:
  assumes "i < ol" and "read_script s (length (calls s)) = Frames n" and "unat sr \<le> n"
  shows "render_loop_16 (Suc fuel) ol sr st i out sg s =
     render_loop_16 fuel ol sr st (i + sr) (out + chunk_step st sr) (sg + sr)
       (s\<lparr>calls := calls s @ [chunk_call st sr Int16 out (unat sr)]\<rparr>)"
proof -
  have "min n (unat sr) = unat sr"
    using assms(3) by simp
  then have rf: "read_frames st s sr sr Int16 out =
      Inr (unat sr, s\<lparr>calls := calls s @ [chunk_call st sr Int16 out (unat sr)]\<rparr>)"
    using assms(2) by (simp add: read_frames_def chunk_call_def Let_def)
  from assms(1) rf show ?thesis
    by (simp add: render_loop_16.simps(2) Let_def chunk_step_def)
qed

lemma render_loop_16_log:
  "render_loop_16 fuel ol sr st i out sg s = Some (Inr (sg', s')) \<Longrightarrow>
     \<exists>new. s' = s\<lparr>calls := calls s @ new\<rparr>
       \<and> (\<forall>c \<in> set new. rc_count c = sr \<and> rc_samplerate c = sr \<and> rc_stereo c = st
              \<and> rc_elem c = Int16 \<and> rc_frames c \<le> unat sr)
       \<and> (\<forall>k. Suc k < length new \<longrightarrow> rc_frames (new ! k) = unat sr)
       \<and> sg' = sg + of_nat (total_frames new)"
proof (induction fuel arbitrary: i out sg s)
  case 0
  then show ?case by simp
next
  case (Suc fuel)
  note run = Suc.prems
  show ?case
  proof (cases "i < ol")
    case False
    with run have "sg' = sg" "s' = s"
      by (simp_all add: render_loop_16_exit)
    then have "s' = s\<lparr>calls := calls s @ []\<rparr> \<and> sg' = sg + of_nat (total_frames [])"
      by (simp add: total_frames_def)
    then show ?thesis
      by (intro exI [of _ "[]"]) simp
  next
    case True
    show ?thesis
    proof (cases "read_script s (length (calls s))")
      case Raise
      with True run show ?thesis
        by (simp add: render_loop_16_throw)
    next
      case (Frames n)
      show ?thesis
      proof (cases "n < unat sr")
        case part: True
        define c where "c = chunk_call st sr Int16 out n"
        have c: "rc_count c = sr" "rc_samplerate c = sr" "rc_stereo c = st" "rc_elem c = Int16"
            "rc_frames c = n"
          by (simp_all add: c_def chunk_call_def)
        from run have "sg' = sg + of_nat n" "s' = s\<lparr>calls := calls s @ [c]\<rparr>"
          by (simp_all add: render_loop_16_partial [OF True Frames part] c_def)
        with c part show ?thesis
          by (intro exI [of _ "[c]"]) (simp add: total_frames_def)
      next
        case False
        then have full: "unat sr \<le> n"
          by simp
        define c where "c = chunk_call st sr Int16 out (unat sr)"
        have c: "rc_count c = sr" "rc_samplerate c = sr" "rc_stereo c = st" "rc_elem c = Int16"
            "rc_frames c = unat sr"
          by (simp_all add: c_def chunk_call_def)
        from run have
          "render_loop_16 fuel ol sr st (i + sr) (out + chunk_step st sr) (sg + sr)
             (s\<lparr>calls := calls s @ [c]\<rparr>) = Some (Inr (sg', s'))"
          by (simp add: render_loop_16_full [OF True Frames full] c_def)
        from Suc.IH [OF this] obtain new where
          s': "s' = s\<lparr>calls := calls s @ c # new\<rparr>"
          and each: "\<forall>c \<in> set new. rc_count c = sr \<and> rc_samplerate c = sr \<and> rc_stereo c = st
              \<and> rc_elem c = Int16 \<and> rc_frames c \<le> unat sr"
          and fullc: "\<forall>k. Suc k < length new \<longrightarrow> rc_frames (new ! k) = unat sr"
          and sum: "sg' = sg + sr + of_nat (total_frames new)"
          by auto
        have nth: "\<forall>k. Suc k < length (c # new) \<longrightarrow> rc_frames ((c # new) ! k) = unat sr"
        proof (intro allI impI)
          fix k
          assume "Suc k < length (c # new)"
          with fullc c show "rc_frames ((c # new) ! k) = unat sr"
            by (cases k) simp_all
        qed
        have "sg' = sg + of_nat (total_frames (c # new))"
          using sum c by (simp add: total_frames_def)
        with s' each c nth show ?thesis
          by (intro exI [of _ "c # new"]) simp
      qed
    qed
  qed
qed

lemma render_loop_16_bounded:
  assumes nw: "N * unat sr < 2 ^ 32" and cov: "unat ol \<le> N * unat sr"
  shows "unat i = j * unat sr \<Longrightarrow> j \<le> N \<Longrightarrow> N - j < fuel \<Longrightarrow>
     \<exists>r. render_loop_16 fuel ol sr st i out sg s = Some r
       \<and> (\<forall>sg' s'. r = Inr (sg', s') \<longrightarrow> length (calls s') \<le> length (calls s) + (N - j))"
proof (induction fuel arbitrary: i j out sg s)
  case 0
  then show ?case by simp
next
  case (Suc fuel)
  note ui = Suc.prems(1)
  show ?case
  proof (cases "i < ol")
    case False
    then show ?thesis
      by (simp add: render_loop_16_exit)
  next
    case True
    then have "j * unat sr < unat ol"
      by (simp only: word_less_nat_alt ui)
    from this cov have "j * unat sr < N * unat sr"
      by (rule less_le_trans)
    then have jN: "j < N"
      by simp
    then have "Suc j * unat sr \<le> N * unat sr"
      by (intro mult_le_mono1) simp
    from this nw have "Suc j * unat sr < 2 ^ 32"
      by (rule le_less_trans)
    then have "unat i + unat sr < 2 ^ LENGTH(32)"
      by (simp add: ui)
    then have "unat (i + sr) = unat i + unat sr"
      by (simp only: unat_add_lem)
    then have next_i: "unat (i + sr) = Suc j * unat sr"
      by (simp add: ui)
    show ?thesis
    proof (cases "read_script s (length (calls s))")
      case Raise
      with True show ?thesis
        by (simp add: render_loop_16_throw)
    next
      case (Frames n)
      show ?thesis
      proof (cases "n < unat sr")
        case part: True
        from jN show ?thesis
          by (simp add: render_loop_16_partial [OF True Frames part])
      next
        case False
        then have full: "unat sr \<le> n"
          by simp
        define s1 where "s1 = s\<lparr>calls := calls s @ [chunk_call st sr Int16 out (unat sr)]\<rparr>"
        have step: "render_loop_16 (Suc fuel) ol sr st i out sg s =
            render_loop_16 fuel ol sr st (i + sr) (out + chunk_step st sr) (sg + sr) s1"
          by (simp only: render_loop_16_full [OF True Frames full] s1_def)
        have "Suc j \<le> N" "N - Suc j < fuel"
          using jN Suc.prems(3) by simp_all
        from Suc.IH [OF next_i this, of "out + chunk_step st sr" "sg + sr" s1] obtain r where
          r: "render_loop_16 fuel ol sr st (i + sr) (out + chunk_step st sr) (sg + sr) s1 = Some r"
          and len: "\<forall>sg' s'. r = Inr (sg', s') \<longrightarrow> length (calls s') \<le> length (calls s1) + (N - Suc j)"
          by blast
        have "length (calls s1) + (N - Suc j) = length (calls s) + (N - j)"
          using jN by (simp add: s1_def)
        with len r step show ?thesis
          by simp
      qed
    qed
  qed
qed

lemma render_loop_16_rate_0:
  "0 < ol \<Longrightarrow> \<forall>k. read_script s k \<noteq> Raise \<Longrightarrow>
     render_loop_16 fuel ol 0 st 0 out sg s = None"
proof (induction fuel arbitrary: out sg s)
  case 0
  then show ?case by simp
next
  case (Suc fuel)
  from Suc.prems(2) obtain n where n: "read_script s (length (calls s)) = Frames n"
    by (cases "read_script s (length (calls s))") auto
  define s1 where "s1 = s\<lparr>calls := calls s @ [chunk_call st 0 Int16 out (unat (0 :: 32 word))]\<rparr>"
  have "\<forall>k. read_script s1 k \<noteq> Raise"
    using Suc.prems(2) by (simp add: s1_def)
  from Suc.IH [OF Suc.prems(1) this] have
    "render_loop_16 fuel ol 0 st 0 (out + chunk_step st 0) sg s1 = None" .
  moreover have "unat (0 :: 32 word) \<le> n"
    by simp
  note render_loop_16_full [OF Suc.prems(1) n this, of fuel st out sg]
  ultimately show ?case
    by (simp add: s1_def)
qed

lemma render_loop_16_raise:
  "\<forall>j<k. \<exists>n\<ge>unat sr. read_script s (length (calls s) + j) = Frames n \<Longrightarrow>
   read_script s (length (calls s) + k) = Raise \<Longrightarrow>
   \<forall>j\<le>k. i + of_nat j * sr < ol \<Longrightarrow> k < fuel \<Longrightarrow>
     render_loop_16 fuel ol sr st i out sg s = Some (Inl Decode_Failure)"
proof (induction k arbitrary: fuel i out sg s)
  case 0
  then obtain f where "fuel = Suc f"
    by (cases fuel) auto
  with 0 show ?case
    by (simp add: render_loop_16_throw)
next
  case (Suc k)
  from Suc.prems(4) obtain f where fuel: "fuel = Suc f" and kf: "k < f"
    by (cases fuel) auto
  from Suc.prems(3) have i: "i < ol"
    by (drule_tac x = 0 in spec) simp
  from Suc.prems(1) obtain n where n: "unat sr \<le> n" "read_script s (length (calls s)) = Frames n"
    by (drule_tac x = 0 in spec) auto
  define s1 where "s1 = s\<lparr>calls := calls s @ [chunk_call st sr Int16 out (unat sr)]\<rparr>"
  have len: "length (calls s1) = Suc (length (calls s))" and rs: "read_script s1 = read_script s"
    by (simp_all add: s1_def)
  have a: "\<forall>j<k. \<exists>n\<ge>unat sr. read_script s1 (length (calls s1) + j) = Frames n"
  proof (intro allI impI)
    fix j
    assume "j < k"
    then have "Suc j < Suc k"
      by simp
    with Suc.prems(1) have "\<exists>n\<ge>unat sr. read_script s (length (calls s) + Suc j) = Frames n"
      by blast
    then show "\<exists>n\<ge>unat sr. read_script s1 (length (calls s1) + j) = Frames n"
      by (simp add: len rs)
  qed
  have b: "read_script s1 (length (calls s1) + k) = Raise"
    using Suc.prems(2) by (simp add: len rs)
  have c: "\<forall>j\<le>k. i + sr + of_nat j * sr < ol"
  proof (intro allI impI)
    fix j
    assume "j \<le> k"
    then have "Suc j \<le> Suc k"
      by simp
    with Suc.prems(3) have "i + of_nat (Suc j) * sr < ol"
      by blast
    then show "i + sr + of_nat j * sr < ol"
      by (simp add: algebra_simps)
  qed
  from Suc.IH [OF a b c kf] have
    "render_loop_16 f ol sr st (i + sr) (out + chunk_step st sr) (sg + sr) s1 = Some (Inl Decode_Failure)" .
  then show ?case
    by (simp add: fuel render_loop_16_full [OF i n(2) n(1)] s1_def)
qed

lemma render_loop_float_exit:
  "\<not> i < ol \<Longrightarrow> render_loop_float (Suc fuel) ol sr st i out sg s = Some (Inr (sg, s))"
  by (simp add: render_loop_float.simps(2))

lemma render_loop_float_throw:
  "i < ol \<Longrightarrow> read_script s (length (calls s)) = Raise \<Longrightarrow>
     render_loop_float (Suc fuel) ol sr st i out sg s = Some (Inl Decode_Failure)"
  by (simp add: render_loop_float.simps(2) read_frames_def)

lemma render_loop_float_partial:
  assumes "i < ol" and "read_script s (length (calls s)) = Frames n" and "n < unat sr"
  shows "render_loop_float (Suc fuel) ol sr st i out sg s =
     Some (Inr (sg + of_nat n, s\<lparr>calls := calls s @ [chunk_call st sr Float32 out n]\<rparr>))"
proof -
  have "min n (unat sr) = n"
    using assms(3) by simp
  then have rf: "read_frames st s sr sr Float32 out =
      Inr (n, s\<lparr>calls := calls s @ [chunk_call st sr Float32 out n]\<rparr>)"
    using assms(2) by (simp add: read_frames_def chunk_call_def Let_def)
  have "(of_nat n :: 32 word) \<noteq> sr"
    using assms(3) by (simp add: full_chunk_iff)
  with assms(1) rf show ?thesis
    by (simp add: render_loop_float.simps(2) Let_def)
qed

lemma render_loop_float_full:
  assumes "i < ol" and "read_script s (length (calls s)) = Frames n" and "unat sr \<le> n"
  shows "render_loop_float (Suc fuel) ol sr st i out sg s =
     render_loop_float fuel ol sr st (i + sr) (out + chunk_step st sr) (sg + sr)
       (s\<lparr>calls := calls s @ [chunk_call st sr Float32 out (unat sr)]\<rparr>)"
proof -
  have "min n (unat sr) = unat sr"
    using assms(3) by simp
  then have rf: "read_frames st s sr sr Float32 out =
      Inr (unat sr, s\<lparr>calls := calls s @ [chunk_call st sr Float32 out (unat sr)]\<rparr>)"
    using assms(2) by (simp add: read_frames_def chunk_call_def Let_def)
  from assms(1) rf show ?thesis
    by (simp add: render_loop_float.simps(2) Let_def chunk_step_def)
qed

lemma render_loop_float_log:
  "render_loop_float fuel ol sr st i out sg s = Some (Inr (sg', s')) \<Longrightarrow>
     \<exists>new. s' = s\<lparr>calls := calls s @ new\<rparr>
       \<and> (\<forall>c \<in> set new. rc_count c = sr \<and> rc_samplerate c = sr \<and> rc_stereo c = st
              \<and> rc_elem c = Float32 \<and> rc_frames c \<le> unat sr)
       \<and> (\<forall>k. Suc k < length new \<longrightarrow> rc_frames (new ! k) = unat sr)
       \<and> sg' = sg + of_nat (total_frames new)"
proof (induction fuel arbitrary: i out sg s)
  case 0
  then show ?case by simp
next
  case (Suc fuel)
  note run = Suc.prems
  show ?case
  proof (cases "i < ol")
    case False
    with run have "sg' = sg" "s' = s"
      by (simp_all add: render_loop_float_exit)
    then have "s' = s\<lparr>calls := calls s @ []\<rparr> \<and> sg' = sg + of_nat (total_frames [])"
      by (simp add: total_frames_def)
    then show ?thesis
      by (intro exI [of _ "[]"]) simp
  next
    case True
    show ?thesis
    proof (cases "read_script s (length (calls s))")
      case Raise
      with True run show ?thesis
        by (simp add: render_loop_float_throw)
    next
      case (Frames n)
      show ?thesis
      proof (cases "n < unat sr")
        case part: True
        define c where "c = chunk_call st sr Float32 out n"
        have c: "rc_count c = sr" "rc_samplerate c = sr" "rc_stereo c = st" "rc_elem c = Float32"
            "rc_frames c = n"
          by (simp_all add: c_def chunk_call_def)
        from run have "sg' = sg + of_nat n" "s' = s\<lparr>calls := calls s @ [c]\<rparr>"
          by (simp_all add: render_loop_float_partial [OF True Frames part] c_def)
        with c part show ?thesis
          by (intro exI [of _ "[c]"]) (simp add: total_frames_def)
      next
        case False
        then have full: "unat sr \<le> n"
          by simp
        define c where "c = chunk_call st sr Float32 out (unat sr)"
        have c: "rc_count c = sr" "rc_samplerate c = sr" "rc_stereo c = st" "rc_elem c = Float32"
            "rc_frames c = unat sr"
          by (simp_all add: c_def chunk_call_def)
        from run have
          "render_loop_float fuel ol sr st (i + sr) (out + chunk_step st sr) (sg + sr)
             (s\<lparr>calls := calls s @ [c]\<rparr>) = Some (Inr (sg', s'))"
          by (simp add: render_loop_float_full [OF True Frames full] c_def)
        from Suc.IH [OF this] obtain new where
          s': "s' = s\<lparr>calls := calls s @ c # new\<rparr>"
          and each: "\<forall>c \<in> set new. rc_count c = sr \<and> rc_samplerate c = sr \<and> rc_stereo c = st
              \<and> rc_elem c = Float32 \<and> rc_frames c \<le> unat sr"
          and fullc: "\<forall>k. Suc k < length new \<longrightarrow> rc_frames (new ! k) = unat sr"
          and sum: "sg' = sg + sr + of_nat (total_frames new)"
          by auto
        have nth: "\<forall>k. Suc k < length (c # new) \<longrightarrow> rc_frames ((c # new) ! k) = unat sr"
        proof (intro allI impI)
          fix k
          assume "Suc k < length (c # new)"
          with fullc c show "rc_frames ((c # new) ! k) = unat sr"
            by (cases k) simp_all
        qed
        have "sg' = sg + of_nat (total_frames (c # new))"
          using sum c by (simp add: total_frames_def)
        with s' each c nth show ?thesis
          by (intro exI [of _ "c # new"]) simp
      qed
    qed
  qed
qed

lemma render_loop_float_bounded:
  assumes nw: "N * unat sr < 2 ^ 32" and cov: "unat ol \<le> N * unat sr"
  shows "unat i = j * unat sr \<Longrightarrow> j \<le> N \<Longrightarrow> N - j < fuel \<Longrightarrow>
     \<exists>r. render_loop_float fuel ol sr st i out sg s = Some r
       \<and> (\<forall>sg' s'. r = Inr (sg', s') \<longrightarrow> length (calls s') \<le> length (calls s) + (N - j))"
proof (induction fuel arbitrary: i j out sg s)
  case 0
  then show ?case by simp
next
  case (Suc fuel)
  note ui = Suc.prems(1)
  show ?case
  proof (cases "i < ol")
    case False
    then show ?thesis
      by (simp add: render_loop_float_exit)
  next
    case True
    then have "j * unat sr < unat ol"
      by (simp only: word_less_nat_alt ui)
    from this cov have "j * unat sr < N * unat sr"
      by (rule less_le_trans)
    then have jN: "j < N"
      by simp
    then have "Suc j * unat sr \<le> N * unat sr"
      by (intro mult_le_mono1) simp
    from this nw have "Suc j * unat sr < 2 ^ 32"
      by (rule le_less_trans)
    then have "unat i + unat sr < 2 ^ LENGTH(32)"
      by (simp add: ui)
    then have "unat (i + sr) = unat i + unat sr"
      by (simp only: unat_add_lem)
    then have next_i: "unat (i + sr) = Suc j * unat sr"
      by (simp add: ui)
    show ?thesis
    proof (cases "read_script s (length (calls s))")
      case Raise
      with True show ?thesis
        by (simp add: render_loop_float_throw)
    next
      case (Frames n)
      show ?thesis
      proof (cases "n < unat sr")
        case part: True
        from jN show ?thesis
          by (simp add: render_loop_float_partial [OF True Frames part])
      next
        case False
        then have full: "unat sr \<le> n"
          by simp
        define s1 where "s1 = s\<lparr>calls := calls s @ [chunk_call st sr Float32 out (unat sr)]\<rparr>"
        have step: "render_loop_float (Suc fuel) ol sr st i out sg s =
            render_loop_float fuel ol sr st (i + sr) (out + chunk_step st sr) (sg + sr) s1"
          by (simp only: render_loop_float_full [OF True Frames full] s1_def)
        have "Suc j \<le> N" "N - Suc j < fuel"
          using jN Suc.prems(3) by simp_all
        from Suc.IH [OF next_i this, of "out + chunk_step st sr" "sg + sr" s1] obtain r where
          r: "render_loop_float fuel ol sr st (i + sr) (out + chunk_step st sr) (sg + sr) s1 = Some r"
          and len: "\<forall>sg' s'. r = Inr (sg', s') \<longrightarrow> length (calls s') \<le> length (calls s1) + (N - Suc j)"
          by blast
        have "length (calls s1) + (N - Suc j) = length (calls s) + (N - j)"
          using jN by (simp add: s1_def)
        with len r step show ?thesis
          by simp
      qed
    qed
  qed
qed

lemma render_loop_float_rate_0:
  "0 < ol \<Longrightarrow> \<forall>k. read_script s k \<noteq> Raise \<Longrightarrow>
     render_loop_float fuel ol 0 st 0 out sg s = None"
proof (induction fuel arbitrary: out sg s)
  case 0
  then show ?case by simp
next
  case (Suc fuel)
  from Suc.prems(2) obtain n where n: "read_script s (length (calls s)) = Frames n"
    by (cases "read_script s (length (calls s))") auto
  define s1 where "s1 = s\<lparr>calls := calls s @ [chunk_call st 0 Float32 out (unat (0 :: 32 word))]\<rparr>"
  have "\<forall>k. read_script s1 k \<noteq> Raise"
    using Suc.prems(2) by (simp add: s1_def)
  from Suc.IH [OF Suc.prems(1) this] have
    "render_loop_float fuel ol 0 st 0 (out + chunk_step st 0) sg s1 = None" .
  moreover have "unat (0 :: 32 word) \<le> n"
    by simp
  note render_loop_float_full [OF Suc.prems(1) n this, of fuel st out sg]
  ultimately show ?case
    by (simp add: s1_def)
qed

lemma render_loop_float_raise:
  "\<forall>j<k. \<exists>n\<ge>unat sr. read_script s (length (calls s) + j) = Frames n \<Longrightarrow>
   read_script s (length (calls s) + k) = Raise \<Longrightarrow>
   \<forall>j\<le>k. i + of_nat j * sr < ol \<Longrightarrow> k < fuel \<Longrightarrow>
     render_loop_float fuel ol sr st i out sg s = Some (Inl Decode_Failure)"
proof (induction k arbitrary: fuel i out sg s)
  case 0
  then obtain f where "fuel = Suc f"
    by (cases fuel) auto
  with 0 show ?case
    by (simp add: render_loop_float_throw)
next
  case (Suc k)
  from Suc.prems(4) obtain f where fuel: "fuel = Suc f" and kf: "k < f"
    by (cases fuel) auto
  from Suc.prems(3) have i: "i < ol"
    by (drule_tac x = 0 in spec) simp
  from Suc.prems(1) obtain n where n: "unat sr \<le> n" "read_script s (length (calls s)) = Frames n"
    by (drule_tac x = 0 in spec) auto
  define s1 where "s1 = s\<lparr>calls := calls s @ [chunk_call st sr Float32 out (unat sr)]\<rparr>"
  have len: "length (calls s1) = Suc (length (calls s))" and rs: "read_script s1 = read_script s"
    by (simp_all add: s1_def)
  have a: "\<forall>j<k. \<exists>n\<ge>unat sr. read_script s1 (length (calls s1) + j) = Frames n"
  proof (intro allI impI)
    fix j
    assume "j < k"
    then have "Suc j < Suc k"
      by simp
    with Suc.prems(1) have "\<exists>n\<ge>unat sr. read_script s (length (calls s) + Suc j) = Frames n"
      by blast
    then show "\<exists>n\<ge>unat sr. read_script s1 (length (calls s1) + j) = Frames n"
      by (simp add: len rs)
  qed
  have b: "read_script s1 (length (calls s1) + k) = Raise"
    using Suc.prems(2) by (simp add: len rs)
  have c: "\<forall>j\<le>k. i + sr + of_nat j * sr < ol"
  proof (intro allI impI)
    fix j
    assume "j \<le> k"
    then have "Suc j \<le> Suc k"
      by simp
    with Suc.prems(3) have "i + of_nat (Suc j) * sr < ol"
      by blast
    then show "i + sr + of_nat j * sr < ol"
      by (simp add: algebra_simps)
  qed
  from Suc.IH [OF a b c kf] have
    "render_loop_float f ol sr st (i + sr) (out + chunk_step st sr) (sg + sr) s1 = Some (Inl Decode_Failure)" .
  then show ?case
    by (simp add: fuel render_loop_float_full [OF i n(2) n(1)] s1_def)
qed

lemmas loop_steps =
  render_loop_16_exit render_loop_16_throw render_loop_16_partial render_loop_16_full
  render_loop_float_exit render_loop_float_throw render_loop_float_partial render_loop_float_full

lemmas loop_steps_numeral =
  loop_steps [where fuel = "pred_numeral k", folded numeral_eq_Suc] for k

text \<open>
  The two loops make the same reads from the same script, whatever the buffer they fill.
\<close>

lemma control_of_chunk_call [simp]:
  "control_of (chunk_call st sr el out n) = (st, sr, sr, out, n)"
  by (simp add: control_of_def chunk_call_def)

lemma render_loops_agree:
  "read_script s = read_script t \<Longrightarrow> map control_of (calls s) = map control_of (calls t) \<Longrightarrow>
     control_view (render_loop_16 fuel ol sr st i out sg s) =
     control_view (render_loop_float fuel ol sr st i out sg t)"
proof (induction fuel arbitrary: i out sg s t)
  case 0
  then show ?case by (simp add: control_view_def)
next
  case (Suc fuel)
  note rs = Suc.prems(1) and cs = Suc.prems(2)
  from cs have "length (map control_of (calls s)) = length (map control_of (calls t))"
    by simp
  then have len: "length (calls s) = length (calls t)"
    by simp
  show ?case
  proof (cases "i < ol")
    case False
    with cs show ?thesis
      by (simp add: render_loop_16_exit render_loop_float_exit control_view_def)
  next
    case True
    show ?thesis
    proof (cases "read_script s (length (calls s))")
      case Raise
      then have "read_script t (length (calls t)) = Raise"
        by (simp add: rs len)
      with True Raise show ?thesis
        by (simp add: render_loop_16_throw render_loop_float_throw control_view_def)
    next
      case (Frames n)
      then have Ft: "read_script t (length (calls t)) = Frames n"
        by (simp add: rs len)
      show ?thesis
      proof (cases "n < unat sr")
        case part: True
        from cs show ?thesis
          by (simp add: render_loop_16_partial [OF True Frames part]
              render_loop_float_partial [OF True Ft part] control_view_def)
      next
        case False
        then have full: "unat sr \<le> n"
          by simp
        define s1 where "s1 = s\<lparr>calls := calls s @ [chunk_call st sr Int16 out (unat sr)]\<rparr>"
        define t1 where "t1 = t\<lparr>calls := calls t @ [chunk_call st sr Float32 out (unat sr)]\<rparr>"
        have "read_script s1 = read_script t1"
          by (simp add: s1_def t1_def rs)
        moreover have "map control_of (calls s1) = map control_of (calls t1)"
          by (simp add: s1_def t1_def cs)
        ultimately have
          "control_view (render_loop_16 fuel ol sr st (i + sr) (out + chunk_step st sr) (sg + sr) s1) =
           control_view (render_loop_float fuel ol sr st (i + sr) (out + chunk_step st sr) (sg + sr) t1)"
          by (rule Suc.IH)
        then show ?thesis
          by (simp only: render_loop_16_full [OF True Frames full]
              render_loop_float_full [OF True Ft full] s1_def t1_def)
      qed
    qed
  qed
qed

text \<open>
  A render that returns normally has loaded the song and returns the byte count of
  the frames its reads produced.
\<close>

lemma render_chunks_bytes:
  assumes "render_chunks fuel ol sr bps st s = Some (Inr (bytes, s'))"
  shows "\<exists>new. s' = s\<lparr>calls := calls s @ new\<rparr>
     \<and> (\<forall>c \<in> set new. rc_frames c \<le> unat sr)
     \<and> bytes = (if st then of_nat (total_frames new) * 2 * bps else of_nat (total_frames new) * bps)"
proof -
  define r where "r = (if bps = 2 then render_loop_16 fuel ol sr st 0 0 0 s
      else render_loop_float fuel ol sr st 0 0 0 s)"
  from assms obtain sg where r: "r = Some (Inr (sg, s'))"
    and bytes: "bytes = (if st then sg * 2 * bps else sg * bps)"
    by (auto simp: render_chunks_def r_def [symmetric] split: option.splits sum.splits if_splits)
  have "\<exists>new. s' = s\<lparr>calls := calls s @ new\<rparr> \<and> (\<forall>c \<in> set new. rc_frames c \<le> unat sr)
      \<and> sg = 0 + of_nat (total_frames new)"
  proof (cases "bps = 2")
    case True
    with r have "render_loop_16 fuel ol sr st 0 0 0 s = Some (Inr (sg, s'))"
      by (simp add: r_def)
    from render_loop_16_log [OF this] show ?thesis
      by blast
  next
    case False
    with r have "render_loop_float fuel ol sr st 0 0 0 s = Some (Inr (sg, s'))"
      by (simp add: r_def)
    from render_loop_float_log [OF this] show ?thesis
      by blast
  qed
  then obtain new where "s' = s\<lparr>calls := calls s @ new\<rparr>" "\<forall>c \<in> set new. rc_frames c \<le> unat sr"
      "sg = of_nat (total_frames new)"
    by auto
  with bytes show ?thesis
    by (intro exI [of _ new]) simp
qed

lemma song_render_try_Inr:
  assumes "song_render_try fuel load ol input len sr bps c t st = Some (Inr (bytes, s'))"
  shows "\<exists>s0. load Map.empty (take (unat len) input) = Some s0
     \<and> render_chunks fuel ol sr bps st (mute_setup c t s0) = Some (Inr (bytes, s'))"
  using assms by (simp add: song_render_try_def split: option.splits)

lemma song_render_params_try_Inr:
  assumes "song_render_params_try fuel load ol input len params = Some (Inr (bytes, s'))"
  shows "\<exists>s0. load (Map.empty(''play.at_end'' \<mapsto> ''stop'')) (take (unat len) input) = Some s0
     \<and> render_chunks fuel ol (rp_sample_rate params) (rp_bytes_per_sample params)
          (rp_stereo_output params)
          (mute_setup_params (rp_channel_to_play params) (rp_instrument_to_play params)
             (if rp_stereo_separation_enabled params
              then set_render_param_stereoseparation s0 (rp_stereo_separation params) else s0))
        = Some (Inr (bytes, s'))"
  using assms by (auto simp add: song_render_params_try_def Let_def split: option.splits)

text \<open>
  While the index cannot wrap, it reaches \<open>output_len\<close> after \<open>chunk_bound\<close> full chunks at
  the latest. With \<open>output_len = 2 ^ 32 - 1\<close> and \<open>sample_rate = 2 ^ 30\<close> it wraps to 0
  after four chunks, and only the decoder can end the loop.
\<close>

lemma chunk_bound_covers:
  assumes "0 < unat sr"
  shows "unat ol \<le> chunk_bound ol sr * unat sr"
proof -
  define u where "u = unat sr"
  define m where "m = unat ol + u - 1"
  have "m < u + (m div u) * u"
    using assms by (simp add: u_def dividend_less_div_times)
  then have "unat ol \<le> (m div u) * u"
    using assms by (simp add: m_def u_def)
  then show ?thesis
    by (simp add: chunk_bound_def m_def u_def)
qed

lemma total_frames_le:
  "\<forall>c \<in> set cs. rc_frames c \<le> u \<Longrightarrow> total_frames cs \<le> length cs * u"
  by (induction cs) (auto simp: total_frames_def)

lemma render_loop_16_terminates:
  assumes u: "0 < unat sr" and nw: "chunk_bound ol sr * unat sr < 2 ^ 32"
    and fuel: "chunk_bound ol sr < fuel"
  shows "\<exists>r. render_loop_16 fuel ol sr st 0 0 0 s = Some r
     \<and> (\<forall>sg' s'. r = Inr (sg', s') \<longrightarrow>
           length (calls s') \<le> length (calls s) + chunk_bound ol sr
         \<and> unat sg' \<le> chunk_bound ol sr * unat sr)"
proof -
  define N where "N = chunk_bound ol sr"
  have cov: "unat ol \<le> N * unat sr"
    unfolding N_def using u by (rule chunk_bound_covers)
  have "unat (0 :: 32 word) = 0 * unat sr" "0 \<le> N" "N - 0 < fuel"
    using fuel by (simp_all add: N_def)
  from render_loop_16_bounded [OF nw [folded N_def] cov this, of st 0 0 s] obtain r where
    r: "render_loop_16 fuel ol sr st 0 0 0 s = Some r"
    and len: "\<forall>sg' s'. r = Inr (sg', s') \<longrightarrow> length (calls s') \<le> length (calls s) + (N - 0)"
    by blast
  have "\<forall>sg' s'. r = Inr (sg', s') \<longrightarrow>
      length (calls s') \<le> length (calls s) + N \<and> unat sg' \<le> N * unat sr"
  proof (intro allI impI)
    fix sg' s'
    assume inr: "r = Inr (sg', s')"
    with len have l: "length (calls s') \<le> length (calls s) + N"
      by simp
    from r inr have "render_loop_16 fuel ol sr st 0 0 0 s = Some (Inr (sg', s'))"
      by simp
    from render_loop_16_log [OF this] obtain new where
      s': "s' = s\<lparr>calls := calls s @ new\<rparr>"
      and each: "\<forall>c \<in> set new. rc_frames c \<le> unat sr"
      and sg: "sg' = of_nat (total_frames new)"
      by auto
    from s' l have "length new \<le> N"
      by simp
    then have "length new * unat sr \<le> N * unat sr"
      by (rule mult_le_mono1)
    with total_frames_le [OF each] have "total_frames new \<le> N * unat sr"
      by (rule le_trans)
    moreover have "unat sg' \<le> total_frames new"
      by (simp add: sg unat_of_nat)
    ultimately have "unat sg' \<le> N * unat sr"
      by simp
    with l show "length (calls s') \<le> length (calls s) + N \<and> unat sg' \<le> N * unat sr"
      by simp
  qed
  with r show ?thesis
    by (simp add: N_def)
qed

lemma render_loop_float_terminates:
  assumes u: "0 < unat sr" and nw: "chunk_bound ol sr * unat sr < 2 ^ 32"
    and fuel: "chunk_bound ol sr < fuel"
  shows "\<exists>r. render_loop_float fuel ol sr st 0 0 0 s = Some r
     \<and> (\<forall>sg' s'. r = Inr (sg', s') \<longrightarrow>
           length (calls s') \<le> length (calls s) + chunk_bound ol sr
         \<and> unat sg' \<le> chunk_bound ol sr * unat sr)"
proof -
  define N where "N = chunk_bound ol sr"
  have cov: "unat ol \<le> N * unat sr"
    unfolding N_def using u by (rule chunk_bound_covers)
  have "unat (0 :: 32 word) = 0 * unat sr" "0 \<le> N" "N - 0 < fuel"
    using fuel by (simp_all add: N_def)
  from render_loop_float_bounded [OF nw [folded N_def] cov this, of st 0 0 s] obtain r where
    r: "render_loop_float fuel ol sr st 0 0 0 s = Some r"
    and len: "\<forall>sg' s'. r = Inr (sg', s') \<longrightarrow> length (calls s') \<le> length (calls s) + (N - 0)"
    by blast
  have "\<forall>sg' s'. r = Inr (sg', s') \<longrightarrow>
      length (calls s') \<le> length (calls s) + N \<and> unat sg' \<le> N * unat sr"
  proof (intro allI impI)
    fix sg' s'
    assume inr: "r = Inr (sg', s')"
    with len have l: "length (calls s') \<le> length (calls s) + N"
      by simp
    from r inr have "render_loop_float fuel ol sr st 0 0 0 s = Some (Inr (sg', s'))"
      by simp
    from render_loop_float_log [OF this] obtain new where
      s': "s' = s\<lparr>calls := calls s @ new\<rparr>"
      and each: "\<forall>c \<in> set new. rc_frames c \<le> unat sr"
      and sg: "sg' = of_nat (total_frames new)"
      by auto
    from s' l have "length new \<le> N"
      by simp
    then have "length new * unat sr \<le> N * unat sr"
      by (rule mult_le_mono1)
    with total_frames_le [OF each] have "total_frames new \<le> N * unat sr"
      by (rule le_trans)
    moreover have "unat sg' \<le> total_frames new"
      by (simp add: sg unat_of_nat)
    ultimately have "unat sg' \<le> N * unat sr"
      by simp
    with l show "length (calls s') \<le> length (calls s) + N \<and> unat sg' \<le> N * unat sr"
      by simp
  qed
  with r show ?thesis
    by (simp add: N_def)
qed

lemma render_loop_16_wraps_forever:
  "\<forall>k. \<exists>n\<ge>1073741824. read_script s k = Frames n \<Longrightarrow>
     i \<in> {0, 1073741824, 2147483648, 3221225472} \<Longrightarrow>
     render_loop_16 fuel 4294967295 1073741824 st i out sg s = None"
proof (induction fuel arbitrary: i out sg s)
  case 0
  then show ?case by simp
next
  case (Suc fuel)
  from Suc.prems(1) obtain n where n: "1073741824 \<le> n" "read_script s (length (calls s)) = Frames n"
    by blast
  define s1 where
    "s1 = s\<lparr>calls := calls s @ [chunk_call st 1073741824 Int16 out (unat (1073741824 :: 32 word))]\<rparr>"
  have rs: "\<forall>k. \<exists>n\<ge>1073741824. read_script s1 k = Frames n"
    using Suc.prems(1) by (simp add: s1_def)
  from Suc.prems(2) have lt: "i < 4294967295"
    and nx: "i + 1073741824 \<in> {0, 1073741824, 2147483648, 3221225472 :: 32 word}"
    by auto
  from n have full: "unat (1073741824 :: 32 word) \<le> n"
    by simp
  from Suc.IH [OF rs nx] show ?case
    by (simp only: render_loop_16_full [OF lt n(2) full] s1_def)
qed

text \<open>A read that throws after \<open>k\<close> full chunks ends the render with the exception.\<close>

lemma render_chunks_raise:
  assumes "\<forall>j<k. \<exists>n\<ge>unat sr. read_script s (length (calls s) + j) = Frames n"
    and "read_script s (length (calls s) + k) = Raise"
    and "\<forall>j\<le>k. of_nat j * sr < ol" and "k < fuel"
  shows "render_chunks fuel ol sr bps st s = Some (Inl Decode_Failure)"
proof -
  from assms(3) have idx: "\<forall>j\<le>k. 0 + of_nat j * sr < ol"
    by simp
  have "render_loop_16 fuel ol sr st 0 0 0 s = Some (Inl Decode_Failure)"
    using assms(1,2) idx assms(4) by (rule render_loop_16_raise)
  moreover have "render_loop_float fuel ol sr st 0 0 0 s = Some (Inl Decode_Failure)"
    using assms(1,2) idx assms(4) by (rule render_loop_float_raise)
  ultimately show ?thesis
    by (simp add: render_chunks_def)
qed

section \<open>Properties of the sample export\<close>











section \<open>The claims of the specification\<close>

subsection \<open>C1: the render stays inside the output buffer\<close>

text \<open>
  C1 says that \<^verbatim>\<open>song_render_c\<close> writes at most \<open>output_len\<close> bytes into \<^verbatim>\<open>output\<close>, and
  that the loop ends without a write when the next chunk of one second would not fit.
  The loop compares its index, which counts frames, with \<open>output_len\<close>, which counts
  bytes, and it tests the start of a chunk, not its end. With a buffer of 16000 bytes,
  8000 frames per second, 16-bit mono output and a song of at least two seconds, the
  second read is made at index 8000 and writes the bytes from 16000 up to 32000: the
  call returns 32000 and has written 16000 bytes past the end of the buffer.
\<close>

theorem render_overruns_buffer:
  "map_option (map_sum id (\<lambda>(bytes, s). (bytes, map write_end (calls s), bytes_extent (calls s))))
     (song_render_try 3 load_mod 16000 [] 0 8000 2 (- 1) (- 1) False)
   = Some (Inr (32000, [16000, 32000], 32000))"
  by (simp add: song_render_try_def load_mod_def mod_song_def mute_setup_def instrument_count_of_def
      render_chunks_def numeral_3_eq_3 loop_steps chunk_call_def chunk_step_def
      bytes_extent_def write_end_def)

subsection \<open>C2: the sample-count fallback of the song information\<close>

text \<open>
  C2 says that every song-info entry point reports the sample count as the number of
  instruments when the decoder reports no instruments, \<^verbatim>\<open>get_song_info\<close> included. Both
  variants of \<^verbatim>\<open>get_song_info_c\<close> do so; \<^verbatim>\<open>get_song_info\<close> copies the raw count. For a
  module with no instruments and sixteen samples it answers 0 where the other two
  answer 16.
\<close>

theorem get_song_info_skips_fallback:
  "get_num_instruments mod_song = 0 \<and> get_num_samples mod_song = 16
   \<and> num_instruments (get_song_info load_mod [] 0 0) = 0
   \<and> num_instruments (get_song_info_c load_mod [] 0) = 16
   \<and> map_sum id (num_instruments \<circ> fst) (get_song_info_c_export load_mod [] 0 None 0) = Inr 16"
  by (simp add: get_song_info_def get_song_info_c_def get_song_info_c_export_def
      load_mod_def mod_song_def info_zero_def)

subsection \<open>C3: what the mute setup leaves muted\<close>

text \<open>
  C3, as amended. After the mute setup of either variant of \<^verbatim>\<open>song_render_c\<close>:
  \<^item> for a channel \<open>c\<close> with \<open>0 \<le> c < channel count\<close> and a negative instrument index:
    if the decoder hands out the interactive interface, channel \<open>i\<close> of the song is
    muted if and only if \<open>i \<noteq> c\<close>, whatever the flags were when the song was loaded;
    the instrument flags are as loaded, so that no instrument is muted if none was
    muted at load;
  \<^item> for an instrument \<open>t\<close> with \<open>0 \<le> t < effective instrument count\<close> and a negative
    channel index: if the decoder hands out the interactive interface (in the variant
    with \<^verbatim>\<open>RenderParams\<close>, the interactive and the interactive2 interface), instrument
    \<open>j\<close> of the song is muted if and only if \<open>j \<noteq> t\<close>, whatever the flags were at load;
    the channel flags are as loaded, so that no channel is muted if none was muted at
    load;
  \<^item> with both indices -1 the song is left as it was loaded, with or without the
    interfaces, so that nothing is muted if nothing was muted at load.
  The claim as stated leaves out the guards of the two passes, which are skipped when
  \<^verbatim>\<open>get_interface\<close> returns a null pointer, and the flags that the song is loaded with,
  which the phase does not clear.
\<close>

theorem mute_setup_isolation:
  "(0 \<le> c \<and> c < get_num_channels s \<and> t < 0 \<longrightarrow>
       (interactive s \<longrightarrow>
          (\<forall>i. 0 \<le> i \<and> i < get_num_channels s \<longrightarrow> channel_mute (mute_setup c t s) i = (i \<noteq> c))
        \<and> (\<forall>i. 0 \<le> i \<and> i < get_num_channels s \<longrightarrow>
               channel_mute (mute_setup_params c t s) i = (i \<noteq> c)))
     \<and> instrument_mute (mute_setup c t s) = instrument_mute s
     \<and> instrument_mute (mute_setup_params c t s) = instrument_mute s
     \<and> ((\<forall>j. \<not> instrument_mute s j) \<longrightarrow>
          (\<forall>j. \<not> instrument_mute (mute_setup c t s) j)
        \<and> (\<forall>j. \<not> instrument_mute (mute_setup_params c t s) j)))
   \<and> (0 \<le> t \<and> t < instrument_count_of s \<and> c < 0 \<longrightarrow>
       (interactive s \<longrightarrow>
          (\<forall>j. 0 \<le> j \<and> j < instrument_count_of s \<longrightarrow>
               instrument_mute (mute_setup c t s) j = (j \<noteq> t)))
     \<and> (interactive s \<and> interactive2 s \<longrightarrow>
          (\<forall>j. 0 \<le> j \<and> j < instrument_count_of s \<longrightarrow>
               instrument_mute (mute_setup_params c t s) j = (j \<noteq> t)))
     \<and> channel_mute (mute_setup c t s) = channel_mute s
     \<and> channel_mute (mute_setup_params c t s) = channel_mute s
     \<and> ((\<forall>i. \<not> channel_mute s i) \<longrightarrow>
          (\<forall>i. \<not> channel_mute (mute_setup c t s) i)
        \<and> (\<forall>i. \<not> channel_mute (mute_setup_params c t s) i)))
   \<and> (c = - 1 \<and> t = - 1 \<longrightarrow>
       mute_setup c t s = s \<and> mute_setup_params c t s = s
     \<and> ((\<forall>i. \<not> channel_mute s i) \<and> (\<forall>j. \<not> instrument_mute s j) \<longrightarrow>
          (\<forall>i. \<not> channel_mute (mute_setup c t s) i)
        \<and> (\<forall>j. \<not> instrument_mute (mute_setup c t s) j)
        \<and> (\<forall>i. \<not> channel_mute (mute_setup_params c t s) i)
        \<and> (\<forall>j. \<not> instrument_mute (mute_setup_params c t s) j)))"
proof (intro conjI impI)
  assume a: "0 \<le> c \<and> c < get_num_channels s \<and> t < 0"
  then show "instrument_mute (mute_setup c t s) = instrument_mute s"
    "instrument_mute (mute_setup_params c t s) = instrument_mute s"
    by (simp_all add: mute_setup_flags fun_eq_iff)
  {
    assume "interactive s"
    with a show
      "\<forall>i. 0 \<le> i \<and> i < get_num_channels s \<longrightarrow> channel_mute (mute_setup c t s) i = (i \<noteq> c)"
      "\<forall>i. 0 \<le> i \<and> i < get_num_channels s \<longrightarrow> channel_mute (mute_setup_params c t s) i = (i \<noteq> c)"
      by (simp_all add: mute_setup_flags)
  }
  {
    assume "\<forall>j. \<not> instrument_mute s j"
    with a show "\<forall>j. \<not> instrument_mute (mute_setup c t s) j"
      "\<forall>j. \<not> instrument_mute (mute_setup_params c t s) j"
      by (simp_all add: mute_setup_flags)
  }
next
  assume a: "0 \<le> t \<and> t < instrument_count_of s \<and> c < 0"
  then show "channel_mute (mute_setup c t s) = channel_mute s"
    "channel_mute (mute_setup_params c t s) = channel_mute s"
    by (simp_all add: mute_setup_flags fun_eq_iff)
  {
    assume "interactive s"
    with a show "\<forall>j. 0 \<le> j \<and> j < instrument_count_of s \<longrightarrow>
        instrument_mute (mute_setup c t s) j = (j \<noteq> t)"
      by (simp add: mute_setup_flags)
  }
  {
    assume "interactive s \<and> interactive2 s"
    with a show "\<forall>j. 0 \<le> j \<and> j < instrument_count_of s \<longrightarrow>
        instrument_mute (mute_setup_params c t s) j = (j \<noteq> t)"
      by (simp add: mute_setup_flags)
  }
  {
    assume "\<forall>i. \<not> channel_mute s i"
    with a show "\<forall>i. \<not> channel_mute (mute_setup c t s) i"
      "\<forall>i. \<not> channel_mute (mute_setup_params c t s) i"
      by (simp_all add: mute_setup_flags)
  }
next
  assume a: "c = - 1 \<and> t = - 1"
  then show "mute_setup c t s = s" "mute_setup_params c t s = s"
    by (simp_all add: mute_setup_full_mix)
  {
    assume "(\<forall>i. \<not> channel_mute s i) \<and> (\<forall>j. \<not> instrument_mute s j)"
    with a show "\<forall>i. \<not> channel_mute (mute_setup c t s) i"
      "\<forall>j. \<not> instrument_mute (mute_setup c t s) j"
      "\<forall>i. \<not> channel_mute (mute_setup_params c t s) i"
      "\<forall>j. \<not> instrument_mute (mute_setup_params c t s) j"
      by (simp_all add: mute_setup_full_mix)
  }
qed

text \<open>
  On a song loaded with channel 3 and instrument 5 muted, a request for channel 3
  unmutes it and mutes the others, and a request for instrument 5 does the same for
  the instruments.
\<close>

theorem mute_setup_isolation_witness:
  "interactive song_muted \<and> interactive2 song_muted
   \<and> get_num_channels song_muted = 4 \<and> instrument_count_of song_muted = 16
   \<and> map (channel_mute song_muted) [0, 1, 2, 3] = [False, False, False, True]
   \<and> map (channel_mute (mute_setup 3 (- 1) song_muted)) [0, 1, 2, 3] = [True, True, True, False]
   \<and> map (channel_mute (mute_setup_params 2 (- 1) song_muted)) [0, 1, 2, 3]
        = [True, True, False, True]
   \<and> instrument_mute (mute_setup 3 (- 1) song_muted) 5
   \<and> \<not> instrument_mute (mute_setup 2 (- 1) mod_song) 5
   \<and> map (instrument_mute (mute_setup (- 1) 5 song_muted)) [0, 1, 2, 3, 4, 5, 6, 7]
        = [True, True, True, True, True, False, True, True]
   \<and> map (instrument_mute (mute_setup_params (- 1) 5 song_muted)) [0, 1, 2, 3, 4, 5, 6, 7]
        = [True, True, True, True, True, False, True, True]
   \<and> channel_mute (mute_setup_params (- 1) 5 song_muted) 3
   \<and> \<not> channel_mute (mute_setup_params (- 1) 5 mod_song) 2
   \<and> channel_mute (mute_setup (- 1) (- 1) song_muted) 3
   \<and> \<not> channel_mute (mute_setup (- 1) (- 1) mod_song) 2
   \<and> \<not> instrument_mute (mute_setup_params (- 1) (- 1) mod_song) 5"
proof -
  have h: "interactive song_muted" "interactive2 song_muted"
      "interactive mod_song" "interactive2 mod_song"
      "\<forall>i. \<not> channel_mute mod_song i" "\<forall>j. \<not> instrument_mute mod_song j"
    by (simp_all add: song_muted_def mod_song_def)
  have n: "get_num_channels song_muted = 4" "instrument_count_of song_muted = 16"
      "get_num_channels mod_song = 4" "instrument_count_of mod_song = 16"
    by (simp_all add: song_muted_def mod_song_def instrument_count_of_def)
  have m: "channel_mute song_muted = (\<lambda>i. i = 3)" "instrument_mute song_muted = (\<lambda>j. j = 5)"
    by (simp_all add: song_muted_def)
  from mute_setup_isolation [of 3 song_muted "- 1"] mute_setup_isolation [of 2 song_muted "- 1"]
    mute_setup_isolation [of 2 mod_song "- 1"]
    mute_setup_isolation [of "- 1" song_muted 5] mute_setup_isolation [of "- 1" mod_song 5]
    mute_setup_isolation [of "- 1" song_muted "- 1"] mute_setup_isolation [of "- 1" mod_song "- 1"]
  show ?thesis
    using h by (simp add: n m)
qed

text \<open>
  Without the interactive interface a request for channel 0 of a four-channel song
  leaves channel 1 unmuted. On a song loaded with channel 3 and instrument 5 muted, a
  request for channel 0 leaves instrument 5 muted, and a full mix leaves channel 3
  muted.
\<close>

theorem mute_setup_guard_counterexample:
  "0 \<le> (0::int) \<and> (0::int) < get_num_channels (mod_song\<lparr>interactive := False\<rparr>)
   \<and> (1::int) \<noteq> 0
   \<and> \<not> channel_mute (mute_setup 0 (- 1) (mod_song\<lparr>interactive := False\<rparr>)) 1
   \<and> interactive song_muted \<and> (0::int) < get_num_channels song_muted
   \<and> instrument_mute (mute_setup 0 (- 1) song_muted) 5
   \<and> channel_mute (mute_setup (- 1) (- 1) song_muted) 3"
  by (simp add: mute_setup_flags mod_song_def song_muted_def)

subsection \<open>C4: a short read ends the loop\<close>

text \<open>
  C4: in the chunked render loop every read asks for exactly \<open>sample_rate\<close> frames; all
  reads but the last one of a finished run come back with \<open>sample_rate\<close> frames, and the
  frames of every read, the short one included, are in the running total
  \<open>samples_generated\<close>. A read that returns fewer frames than \<open>sample_rate\<close> is the last
  one: the iteration that makes it adds its frames to the total and returns, whatever
  is left of the bound on the iterations.
\<close>

theorem partial_chunk_ends_loop:
  "(render_loop_16 fuel ol sr st i out sg s = Some (Inr (sg', s'))
      \<or> render_loop_float fuel ol sr st i out sg s = Some (Inr (sg', s')) \<longrightarrow>
      (\<exists>new. calls s' = calls s @ new
         \<and> (\<forall>c \<in> set new. rc_count c = sr)
         \<and> (\<forall>k. Suc k < length new \<longrightarrow> rc_frames (new ! k) = unat sr)
         \<and> sg' = sg + of_nat (total_frames new)))
   \<and> (i < ol \<and> read_script s (length (calls s)) = Frames n \<and> n < unat sr \<longrightarrow>
        render_loop_16 (Suc fuel) ol sr st i out sg s =
          Some (Inr (sg + of_nat n, s\<lparr>calls := calls s @ [chunk_call st sr Int16 out n]\<rparr>))
      \<and> render_loop_float (Suc fuel) ol sr st i out sg s =
          Some (Inr (sg + of_nat n, s\<lparr>calls := calls s @ [chunk_call st sr Float32 out n]\<rparr>)))"
proof (intro conjI impI)
  assume "render_loop_16 fuel ol sr st i out sg s = Some (Inr (sg', s'))
      \<or> render_loop_float fuel ol sr st i out sg s = Some (Inr (sg', s'))"
  then show "\<exists>new. calls s' = calls s @ new
         \<and> (\<forall>c \<in> set new. rc_count c = sr)
         \<and> (\<forall>k. Suc k < length new \<longrightarrow> rc_frames (new ! k) = unat sr)
         \<and> sg' = sg + of_nat (total_frames new)"
  proof
    assume "render_loop_16 fuel ol sr st i out sg s = Some (Inr (sg', s'))"
    from render_loop_16_log [OF this] obtain new where
      "s' = s\<lparr>calls := calls s @ new\<rparr>" "\<forall>c \<in> set new. rc_count c = sr"
      "\<forall>k. Suc k < length new \<longrightarrow> rc_frames (new ! k) = unat sr"
      "sg' = sg + of_nat (total_frames new)"
      by blast
    then show ?thesis
      by (intro exI [of _ new]) simp
  next
    assume "render_loop_float fuel ol sr st i out sg s = Some (Inr (sg', s'))"
    from render_loop_float_log [OF this] obtain new where
      "s' = s\<lparr>calls := calls s @ new\<rparr>" "\<forall>c \<in> set new. rc_count c = sr"
      "\<forall>k. Suc k < length new \<longrightarrow> rc_frames (new ! k) = unat sr"
      "sg' = sg + of_nat (total_frames new)"
      by blast
    then show ?thesis
      by (intro exI [of _ new]) simp
  qed
next
  assume a: "i < ol \<and> read_script s (length (calls s)) = Frames n \<and> n < unat sr"
  then show "render_loop_16 (Suc fuel) ol sr st i out sg s =
      Some (Inr (sg + of_nat n, s\<lparr>calls := calls s @ [chunk_call st sr Int16 out n]\<rparr>))"
    by (simp add: render_loop_16_partial)
  from a show "render_loop_float (Suc fuel) ol sr st i out sg s =
      Some (Inr (sg + of_nat n, s\<lparr>calls := calls s @ [chunk_call st sr Float32 out n]\<rparr>))"
    by (simp add: render_loop_float_partial)
qed

theorem partial_chunk_ends_loop_witness:
  "render_loop_16 5 480000 48000 False 0 0 0 song_3_35 =
     Some (Inr (160800, song_3_35\<lparr>calls :=
       [chunk_call False 48000 Int16 0 48000, chunk_call False 48000 Int16 48000 48000,
        chunk_call False 48000 Int16 96000 48000, chunk_call False 48000 Int16 144000 16800]\<rparr>))
   \<and> (\<exists>new. [chunk_call False 48000 Int16 0 48000, chunk_call False 48000 Int16 48000 48000,
        chunk_call False 48000 Int16 96000 48000, chunk_call False 48000 Int16 144000 16800] = new
         \<and> (\<forall>c \<in> set new. rc_count c = 48000)
         \<and> (\<forall>k. Suc k < length new \<longrightarrow> rc_frames (new ! k) = 48000)
         \<and> (160800 :: 32 word) = of_nat (total_frames new))
   \<and> render_loop_float (Suc 0) 480000 48000 True 144000 288000 144000
        (song_3_35\<lparr>calls := [chunk_call True 48000 Float32 0 48000,
           chunk_call True 48000 Float32 96000 48000, chunk_call True 48000 Float32 192000 48000]\<rparr>) =
      Some (Inr (160800, song_3_35\<lparr>calls := [chunk_call True 48000 Float32 0 48000,
           chunk_call True 48000 Float32 96000 48000, chunk_call True 48000 Float32 192000 48000,
           chunk_call True 48000 Float32 288000 16800]\<rparr>))"
proof -
  define S where "S = song_3_35\<lparr>calls :=
       [chunk_call False 48000 Int16 0 48000, chunk_call False 48000 Int16 48000 48000,
        chunk_call False 48000 Int16 96000 48000, chunk_call False 48000 Int16 144000 16800]\<rparr>"
  define T where "T = song_3_35\<lparr>calls := [chunk_call True 48000 Float32 0 48000,
           chunk_call True 48000 Float32 96000 48000, chunk_call True 48000 Float32 192000 48000]\<rparr>"
  have run: "render_loop_16 5 480000 48000 False 0 0 0 song_3_35 = Some (Inr (160800, S))"
    by (simp add: loop_steps_numeral song_3_35_def mod_song_def chunk_step_def S_def)
  have c0: "calls song_3_35 = []"
    by (simp add: song_3_35_def mod_song_def)
  have h: "(144000 :: 32 word) < 480000 \<and> read_script T (length (calls T)) = Frames 16800
      \<and> 16800 < unat (48000 :: 32 word)"
    by (simp add: T_def song_3_35_def mod_song_def)
  from partial_chunk_ends_loop [of 5 480000 48000 False 0 0 0 song_3_35 160800 S]
    partial_chunk_ends_loop [of 0 480000 48000 True 144000 288000 144000 T 160800 T 16800] run h
  show ?thesis
    unfolding S_def [symmetric] T_def [symmetric]
    by (simp add: c0 S_def T_def)
qed

subsection \<open>C5: the returned byte count\<close>

text \<open>
  C5: a call of \<^verbatim>\<open>song_render_c\<close> that leaves the \<^verbatim>\<open>try\<close> block by a \<^verbatim>\<open>return\<close> has
  loaded the song and returns \<open>samples_generated * 2 * bytes_per_sample\<close> for stereo
  output and \<open>samples_generated * bytes_per_sample\<close> for mono output, where
  \<open>samples_generated\<close> is the number of frames the reads of this render produced; as
  in the code, the total and the products are 32-bit values. This holds for both
  variants of the entry point.
\<close>

theorem returned_byte_count:
  "(song_render_try fuel load output_len input len sample_rate bytes_per_sample
        channel_to_play instrument_to_play stereo_output = Some (Inr (bytes, s')) \<longrightarrow>
      (\<exists>s0. load Map.empty (take (unat len) input) = Some s0
         \<and> song_render_c fuel load output_len input len sample_rate bytes_per_sample
              channel_to_play instrument_to_play stereo_output = Some bytes
         \<and> bytes =
             (if stereo_output
              then of_nat (total_frames (drop (length (calls s0)) (calls s'))) * 2 * bytes_per_sample
              else of_nat (total_frames (drop (length (calls s0)) (calls s'))) * bytes_per_sample)))
   \<and> (song_render_params_try fuel load output_len input len params = Some (Inr (bytes, s')) \<longrightarrow>
      (\<exists>s0. load (Map.empty(''play.at_end'' \<mapsto> ''stop'')) (take (unat len) input) = Some s0
         \<and> song_render_c_params fuel load output_len input len params = Some bytes
         \<and> bytes =
             (if rp_stereo_output params
              then of_nat (total_frames (drop (length (calls s0)) (calls s'))) * 2
                     * rp_bytes_per_sample params
              else of_nat (total_frames (drop (length (calls s0)) (calls s')))
                     * rp_bytes_per_sample params)))"
proof (intro conjI impI)
  assume run: "song_render_try fuel load output_len input len sample_rate bytes_per_sample
        channel_to_play instrument_to_play stereo_output = Some (Inr (bytes, s'))"
  from song_render_try_Inr [OF run] obtain s0 where
    s0: "load Map.empty (take (unat len) input) = Some s0"
    and rc: "render_chunks fuel output_len sample_rate bytes_per_sample stereo_output
        (mute_setup channel_to_play instrument_to_play s0) = Some (Inr (bytes, s'))"
    by blast
  from render_chunks_bytes [OF rc] obtain new where
    s': "s' = mute_setup channel_to_play instrument_to_play s0
           \<lparr>calls := calls (mute_setup channel_to_play instrument_to_play s0) @ new\<rparr>"
    and b: "bytes = (if stereo_output then of_nat (total_frames new) * 2 * bytes_per_sample
        else of_nat (total_frames new) * bytes_per_sample)"
    by blast
  from s' have "drop (length (calls s0)) (calls s') = new"
    by simp
  with b s0 run show "\<exists>s0. load Map.empty (take (unat len) input) = Some s0
         \<and> song_render_c fuel load output_len input len sample_rate bytes_per_sample
              channel_to_play instrument_to_play stereo_output = Some bytes
         \<and> bytes =
             (if stereo_output
              then of_nat (total_frames (drop (length (calls s0)) (calls s'))) * 2 * bytes_per_sample
              else of_nat (total_frames (drop (length (calls s0)) (calls s'))) * bytes_per_sample)"
    by (simp add: song_render_c_def)
next
  assume run: "song_render_params_try fuel load output_len input len params = Some (Inr (bytes, s'))"
  from song_render_params_try_Inr [OF run] obtain s0 where
    s0: "load (Map.empty(''play.at_end'' \<mapsto> ''stop'')) (take (unat len) input) = Some s0"
    and rc: "render_chunks fuel output_len (rp_sample_rate params) (rp_bytes_per_sample params)
          (rp_stereo_output params)
          (mute_setup_params (rp_channel_to_play params) (rp_instrument_to_play params)
             (if rp_stereo_separation_enabled params
              then set_render_param_stereoseparation s0 (rp_stereo_separation params) else s0))
        = Some (Inr (bytes, s'))"
    by blast
  define s1 where "s1 = mute_setup_params (rp_channel_to_play params) (rp_instrument_to_play params)
             (if rp_stereo_separation_enabled params
              then set_render_param_stereoseparation s0 (rp_stereo_separation params) else s0)"
  have c1: "calls s1 = calls s0"
    by (simp add: s1_def set_render_param_stereoseparation_def)
  from render_chunks_bytes [OF rc] obtain new where
    s': "s' = s1\<lparr>calls := calls s1 @ new\<rparr>"
    and b: "bytes = (if rp_stereo_output params
        then of_nat (total_frames new) * 2 * rp_bytes_per_sample params
        else of_nat (total_frames new) * rp_bytes_per_sample params)"
    unfolding s1_def [symmetric] by blast
  from s' c1 have "drop (length (calls s0)) (calls s') = new"
    by simp
  with b s0 run show "\<exists>s0. load (Map.empty(''play.at_end'' \<mapsto> ''stop'')) (take (unat len) input) = Some s0
         \<and> song_render_c_params fuel load output_len input len params = Some bytes
         \<and> bytes =
             (if rp_stereo_output params
              then of_nat (total_frames (drop (length (calls s0)) (calls s'))) * 2
                     * rp_bytes_per_sample params
              else of_nat (total_frames (drop (length (calls s0)) (calls s')))
                     * rp_bytes_per_sample params)"
    by (simp add: song_render_c_params_def)
qed

text \<open>
  The first scenario of the specification: 3.35 seconds at 48000 frames per second,
  channel 2 of 4, 16-bit mono, give 321600 bytes; the same song as interleaved stereo
  floats gives 1286400 bytes.
\<close>

theorem returned_byte_count_witness:
  "song_render_c 5 load_3_35 480000 [] 0 48000 2 2 (- 1) False = Some 321600
   \<and> (321600 :: 32 word) = of_nat (3 * 48000 + 16800) * 2
   \<and> song_render_c_params 5 load_3_35 1536000 [] 0
        \<lparr>rp_sample_rate = 48000, rp_bytes_per_sample = 4, rp_channel_to_play = - 1,
         rp_instrument_to_play = - 1, rp_stereo_separation = 100,
         rp_stereo_separation_enabled = True, rp_stereo_output = True\<rparr> = Some 1286400
   \<and> (1286400 :: 32 word) = of_nat (3 * 48000 + 16800) * 2 * 4"
proof -
  define P where "P = \<lparr>rp_sample_rate = 48000, rp_bytes_per_sample = 4, rp_channel_to_play = - 1,
         rp_instrument_to_play = - 1, rp_stereo_separation = 100,
         rp_stereo_separation_enabled = True, rp_stereo_output = True\<rparr>"
  define S where "S = mute_setup 2 (- 1) song_3_35\<lparr>calls :=
       [chunk_call False 48000 Int16 0 48000, chunk_call False 48000 Int16 48000 48000,
        chunk_call False 48000 Int16 96000 48000, chunk_call False 48000 Int16 144000 16800]\<rparr>"
  define T where "T = mute_setup_params (- 1) (- 1) (set_render_param_stereoseparation song_3_35 100)
       \<lparr>calls := [chunk_call True 48000 Float32 0 48000, chunk_call True 48000 Float32 96000 48000,
          chunk_call True 48000 Float32 192000 48000, chunk_call True 48000 Float32 288000 16800]\<rparr>"
  have run: "song_render_try 5 load_3_35 480000 [] 0 48000 2 2 (- 1) False = Some (Inr (321600, S))"
    by (simp add: song_render_try_def load_3_35_def render_chunks_def S_def loop_steps_numeral
        song_3_35_def mod_song_def chunk_step_def)
  have run_p: "song_render_params_try 5 load_3_35 1536000 [] 0 P = Some (Inr (1286400, T))"
    by (simp add: song_render_params_try_def load_3_35_def render_chunks_def T_def P_def
        loop_steps_numeral song_3_35_def mod_song_def chunk_step_def
        set_render_param_stereoseparation_def)
  from returned_byte_count [where fuel = 5 and load = load_3_35 and output_len = 480000
      and input = "[]" and len = 0 and sample_rate = 48000 and bytes_per_sample = 2
      and channel_to_play = 2 and instrument_to_play = "- 1" and stereo_output = False
      and bytes = 321600 and s' = S] run
  have a: "song_render_c 5 load_3_35 480000 [] 0 48000 2 2 (- 1) False = Some 321600"
    by blast
  from returned_byte_count [where fuel = 5 and load = load_3_35 and output_len = 1536000
      and input = "[]" and len = 0 and params = P and bytes = 1286400 and s' = T] run_p
  have b: "song_render_c_params 5 load_3_35 1536000 [] 0 P = Some 1286400"
    by blast
  from a b show ?thesis
    by (simp add: P_def)
qed

subsection \<open>C6: a decode failure gives the zero results\<close>

text \<open>
  C6: for a buffer that the decoder rejects, both variants of \<^verbatim>\<open>get_song_info_c\<close> return
  the record \<open>{0, 0, 0.0}\<close> (the variant with sample export writes no file) and both
  variants of \<^verbatim>\<open>song_render_c\<close> return 0. Every exception that leaves the \<^verbatim>\<open>try\<close> block
  of a render is turned into the result 0; in particular a read that throws after \<open>k\<close>
  full chunks have been generated gives 0. The entry points return a value in every
  case: no exception of the decoder leaves them.
\<close>

theorem decode_failure_yields_zero:
  "((\<forall>ctls. load ctls (take (unat len) input) = None) \<longrightarrow>
       get_song_info_c load input len = info_zero
     \<and> get_song_info_c_export load input len output_with_stem sample_format =
         Inr (info_zero, \<lparr>files = [], stdout = []\<rparr>)
     \<and> song_render_c fuel load output_len input len sample_rate bytes_per_sample
          channel_to_play instrument_to_play stereo_output = Some 0
     \<and> song_render_c_params fuel load output_len input len params = Some 0)
   \<and> (song_render_try fuel load output_len input len sample_rate bytes_per_sample
          channel_to_play instrument_to_play stereo_output = Some (Inl e) \<longrightarrow>
        song_render_c fuel load output_len input len sample_rate bytes_per_sample
          channel_to_play instrument_to_play stereo_output = Some 0)
   \<and> (song_render_params_try fuel load output_len input len params = Some (Inl e) \<longrightarrow>
        song_render_c_params fuel load output_len input len params = Some 0)
   \<and> ((\<forall>ctls. load ctls (take (unat len) input) = Some s0)
        \<and> (\<forall>j<k. \<exists>n\<ge>unat sample_rate. read_script s0 (length (calls s0) + j) = Frames n)
        \<and> read_script s0 (length (calls s0) + k) = Raise
        \<and> (\<forall>j\<le>k. of_nat j * sample_rate < output_len) \<and> k < fuel
        \<and> rp_sample_rate params = sample_rate \<longrightarrow>
        song_render_c fuel load output_len input len sample_rate bytes_per_sample
          channel_to_play instrument_to_play stereo_output = Some 0
      \<and> song_render_c_params fuel load output_len input len params = Some 0)"
proof (intro conjI impI)
  assume "\<forall>ctls. load ctls (take (unat len) input) = None"
  then show "get_song_info_c load input len = info_zero"
    "get_song_info_c_export load input len output_with_stem sample_format =
         Inr (info_zero, \<lparr>files = [], stdout = []\<rparr>)"
    "song_render_c fuel load output_len input len sample_rate bytes_per_sample
          channel_to_play instrument_to_play stereo_output = Some 0"
    "song_render_c_params fuel load output_len input len params = Some 0"
    by (simp_all add: get_song_info_c_def get_song_info_c_export_def song_render_c_def
        song_render_try_def song_render_c_params_def song_render_params_try_def)
next
  assume "song_render_try fuel load output_len input len sample_rate bytes_per_sample
          channel_to_play instrument_to_play stereo_output = Some (Inl e)"
  then show "song_render_c fuel load output_len input len sample_rate bytes_per_sample
          channel_to_play instrument_to_play stereo_output = Some 0"
    by (simp add: song_render_c_def)
next
  assume "song_render_params_try fuel load output_len input len params = Some (Inl e)"
  then show "song_render_c_params fuel load output_len input len params = Some 0"
    by (simp add: song_render_c_params_def)
next
  assume a: "(\<forall>ctls. load ctls (take (unat len) input) = Some s0)
        \<and> (\<forall>j<k. \<exists>n\<ge>unat sample_rate. read_script s0 (length (calls s0) + j) = Frames n)
        \<and> read_script s0 (length (calls s0) + k) = Raise
        \<and> (\<forall>j\<le>k. of_nat j * sample_rate < output_len) \<and> k < fuel
        \<and> rp_sample_rate params = sample_rate"
  define s1 where "s1 = mute_setup channel_to_play instrument_to_play s0"
  have k1: "calls s1 = calls s0" "read_script s1 = read_script s0"
    by (simp_all add: s1_def)
  from a have "render_chunks fuel output_len sample_rate bytes_per_sample stereo_output s1 =
      Some (Inl Decode_Failure)"
    by (intro render_chunks_raise [where k = k]) (simp_all add: k1)
  with a show "song_render_c fuel load output_len input len sample_rate bytes_per_sample
          channel_to_play instrument_to_play stereo_output = Some 0"
    by (simp add: song_render_c_def song_render_try_def s1_def)
  define s2 where "s2 = mute_setup_params (rp_channel_to_play params) (rp_instrument_to_play params)
             (if rp_stereo_separation_enabled params
              then set_render_param_stereoseparation s0 (rp_stereo_separation params) else s0)"
  have k2: "calls s2 = calls s0" "read_script s2 = read_script s0"
    by (simp_all add: s2_def set_render_param_stereoseparation_def)
  from a have "render_chunks fuel output_len sample_rate (rp_bytes_per_sample params)
      (rp_stereo_output params) s2 = Some (Inl Decode_Failure)"
    by (intro render_chunks_raise [where k = k]) (simp_all add: k2)
  with a show "song_render_c_params fuel load output_len input len params = Some 0"
    by (simp add: song_render_c_params_def song_render_params_try_def s2_def Let_def)
qed

theorem decode_failure_yields_zero_witness:
  "get_song_info_c load_fails [0x4D, 0x2E, 0x4B, 0x2E] 4 = info_zero
   \<and> get_song_info_c_export load_fails [0x4D, 0x2E, 0x4B, 0x2E] 4 (Some ''track'') 0 =
       Inr (info_zero, \<lparr>files = [], stdout = []\<rparr>)
   \<and> song_render_c 3 load_fails 80000 [0x4D, 0x2E, 0x4B, 0x2E] 4 8000 2 (- 1) (- 1) False = Some 0
   \<and> song_render_c_params 3 load_fails 80000 [0x4D, 0x2E, 0x4B, 0x2E] 4
        \<lparr>rp_sample_rate = 8000, rp_bytes_per_sample = 4, rp_channel_to_play = - 1,
         rp_instrument_to_play = - 1, rp_stereo_separation = 100,
         rp_stereo_separation_enabled = False, rp_stereo_output = True\<rparr> = Some 0
   \<and> read_script song_throws 0 = Frames 8000 \<and> read_script song_throws 1 = Frames 8000
   \<and> read_script song_throws 2 = Raise
   \<and> song_render_c 3 load_throws 80000 [] 0 8000 2 (- 1) (- 1) False = Some 0
   \<and> song_render_c_params 3 load_throws 80000 [] 0
        \<lparr>rp_sample_rate = 8000, rp_bytes_per_sample = 4, rp_channel_to_play = - 1,
         rp_instrument_to_play = - 1, rp_stereo_separation = 100,
         rp_stereo_separation_enabled = False, rp_stereo_output = True\<rparr> = Some 0"
proof -
  define P where "P = \<lparr>rp_sample_rate = 8000, rp_bytes_per_sample = 4, rp_channel_to_play = - 1,
         rp_instrument_to_play = - 1, rp_stereo_separation = 100,
         rp_stereo_separation_enabled = False, rp_stereo_output = True\<rparr>"
  have f: "\<forall>ctls. load_fails ctls (take (unat (4 :: 32 word)) [0x4D, 0x2E, 0x4B, 0x2E]) = None"
    by (simp add: load_fails_def)
  have rs: "read_script song_throws 0 = Frames 8000" "read_script song_throws 1 = Frames 8000"
      "read_script song_throws 2 = Raise" "calls song_throws = []"
    by (simp_all add: song_throws_def mod_song_def)
  have full: "\<forall>j<2. \<exists>n\<ge>unat (8000 :: 32 word).
      read_script song_throws (length (calls song_throws) + j) = Frames n"
    by (simp add: song_throws_def mod_song_def)
  have idx: "\<forall>j\<le>2. of_nat j * (8000 :: 32 word) < 80000"
  proof (intro allI impI)
    fix j :: nat
    assume "j \<le> 2"
    then have "j = 0 \<or> j = 1 \<or> j = 2"
      by auto
    then show "of_nat j * (8000 :: 32 word) < 80000"
      by auto
  qed
  have t: "(\<forall>ctls. load_throws ctls (take (unat (0 :: 32 word)) []) = Some song_throws)
      \<and> (\<forall>j<2. \<exists>n\<ge>unat (8000 :: 32 word).
            read_script song_throws (length (calls song_throws) + j) = Frames n)
      \<and> read_script song_throws (length (calls song_throws) + 2) = Raise
      \<and> (\<forall>j\<le>2. of_nat j * (8000 :: 32 word) < 80000) \<and> (2 :: nat) < 3
      \<and> rp_sample_rate P = 8000"
  proof (intro conjI)
    show "\<forall>ctls. load_throws ctls (take (unat (0 :: 32 word)) []) = Some song_throws"
      by (simp add: load_throws_def)
    show "read_script song_throws (length (calls song_throws) + 2) = Raise"
      by (simp add: song_throws_def mod_song_def)
    show "rp_sample_rate P = 8000"
      by (simp add: P_def)
    show "\<forall>j<2. \<exists>n\<ge>unat (8000 :: 32 word).
        read_script song_throws (length (calls song_throws) + j) = Frames n"
      by (rule full)
    show "\<forall>j\<le>2. of_nat j * (8000 :: 32 word) < 80000"
      by (rule idx)
    show "(2 :: nat) < 3"
      by simp
  qed
  from decode_failure_yields_zero [where load = load_fails and len = 4
      and input = "[0x4D, 0x2E, 0x4B, 0x2E]" and output_with_stem = "Some ''track''"
      and sample_format = 0 and fuel = 3 and output_len = 80000 and sample_rate = 8000
      and bytes_per_sample = 2 and channel_to_play = "- 1" and instrument_to_play = "- 1"
      and stereo_output = False and params = P] f
  have a: "get_song_info_c load_fails [0x4D, 0x2E, 0x4B, 0x2E] 4 = info_zero
   \<and> get_song_info_c_export load_fails [0x4D, 0x2E, 0x4B, 0x2E] 4 (Some ''track'') 0 =
       Inr (info_zero, \<lparr>files = [], stdout = []\<rparr>)
   \<and> song_render_c 3 load_fails 80000 [0x4D, 0x2E, 0x4B, 0x2E] 4 8000 2 (- 1) (- 1) False = Some 0
   \<and> song_render_c_params 3 load_fails 80000 [0x4D, 0x2E, 0x4B, 0x2E] 4 P = Some 0"
    by blast
  from decode_failure_yields_zero [where load = load_throws and len = 0
      and input = "[]" and fuel = 3 and output_len = 80000 and sample_rate = 8000
      and bytes_per_sample = 2 and channel_to_play = "- 1" and instrument_to_play = "- 1"
      and stereo_output = False and params = P and ?s0.0 = song_throws and k = 2] t
  have b: "song_render_c 3 load_throws 80000 [] 0 8000 2 (- 1) (- 1) False = Some 0
   \<and> song_render_c_params 3 load_throws 80000 [] 0 P = Some 0"
    by blast
  from a b rs show ?thesis
    by (simp add: P_def)
qed

subsection \<open>C7: one sample file for every index\<close>




subsection \<open>C8: the two loops have the same control flow\<close>

text \<open>
  C8: the 16-bit loop and the float loop, run on the same song from the same index,
  destination offset and running total, within the same bound on their iterations,
  both finish or both are still running; when they finish, both return or both throw,
  with the same \<open>samples_generated\<close> and the same reads (overload, sample rate, frame
  count, destination offset and frames rendered). They differ in the element type of
  the destination only.
\<close>

theorem render_loops_same_control:
  "control_view (render_loop_16 fuel output_len sample_rate stereo_output i out samples_generated s) =
   control_view (render_loop_float fuel output_len sample_rate stereo_output i out samples_generated s)"
  by (rule render_loops_agree) simp_all

theorem render_loops_same_control_witness:
  "control_view (render_loop_16 5 480000 48000 False 0 0 0 song_3_35) =
     Some (Inr (160800, [(False, 48000, 48000, 0, 48000), (False, 48000, 48000, 48000, 48000),
       (False, 48000, 48000, 96000, 48000), (False, 48000, 48000, 144000, 16800)]))
   \<and> control_view (render_loop_float 5 480000 48000 False 0 0 0 song_3_35) =
     Some (Inr (160800, [(False, 48000, 48000, 0, 48000), (False, 48000, 48000, 48000, 48000),
       (False, 48000, 48000, 96000, 48000), (False, 48000, 48000, 144000, 16800)]))"
proof -
  have "control_view (render_loop_16 5 480000 48000 False 0 0 0 song_3_35) =
     Some (Inr (160800, [(False, 48000, 48000, 0, 48000), (False, 48000, 48000, 48000, 48000),
       (False, 48000, 48000, 96000, 48000), (False, 48000, 48000, 144000, 16800)]))"
    by (simp add: loop_steps_numeral song_3_35_def mod_song_def chunk_step_def control_view_def)
  with render_loops_same_control [of 5 480000 48000 False 0 0 0 song_3_35] show ?thesis
    by simp
qed

subsection \<open>C9: two independent mute switches\<close>

text \<open>
  C9, as amended: the two mute passes are independent switches. When both indices are
  non-negative and the decoder hands out the interfaces the passes are guarded by (the
  interactive interface, and for the instrument pass of the variant with
  \<^verbatim>\<open>RenderParams\<close> also interactive2), both passes are applied in the same render. When
  the channel index is negative the channel flags are left as the song was loaded, and
  when the instrument index is negative the instrument flags are: they are not cleared.
\<close>

theorem mute_passes_independent:
  "(0 \<le> c \<and> 0 \<le> t \<and> interactive s \<longrightarrow>
       (\<forall>i. 0 \<le> i \<and> i < get_num_channels s \<longrightarrow> channel_mute (mute_setup c t s) i = (i \<noteq> c))
     \<and> (\<forall>j. 0 \<le> j \<and> j < instrument_count_of s \<longrightarrow>
            instrument_mute (mute_setup c t s) j = (j \<noteq> t))
     \<and> (\<forall>i. 0 \<le> i \<and> i < get_num_channels s \<longrightarrow>
            channel_mute (mute_setup_params c t s) i = (i \<noteq> c))
     \<and> (interactive2 s \<longrightarrow>
          (\<forall>j. 0 \<le> j \<and> j < instrument_count_of s \<longrightarrow>
              instrument_mute (mute_setup_params c t s) j = (j \<noteq> t))))
   \<and> (c < 0 \<longrightarrow> channel_mute (mute_setup c t s) = channel_mute s
                 \<and> channel_mute (mute_setup_params c t s) = channel_mute s)
   \<and> (t < 0 \<longrightarrow> instrument_mute (mute_setup c t s) = instrument_mute s
                 \<and> instrument_mute (mute_setup_params c t s) = instrument_mute s)"
  by (simp add: mute_setup_flags fun_eq_iff)

theorem mute_passes_independent_witness:
  "interactive mod_song \<and> interactive2 mod_song
   \<and> map (channel_mute (mute_setup 2 5 mod_song)) [0, 1, 2, 3] = [True, True, False, True]
   \<and> map (instrument_mute (mute_setup 2 5 mod_song)) [4, 5, 6] = [True, False, True]
   \<and> map (channel_mute (mute_setup_params 2 5 mod_song)) [0, 1, 2, 3] = [True, True, False, True]
   \<and> map (instrument_mute (mute_setup_params 2 5 mod_song)) [4, 5, 6] = [True, False, True]
   \<and> channel_mute (mod_song\<lparr>channel_mute := (\<lambda>i. i = 3)\<rparr>) 3
   \<and> channel_mute (mute_setup (- 1) 5 (mod_song\<lparr>channel_mute := (\<lambda>i. i = 3)\<rparr>)) 3
   \<and> instrument_mute (mute_setup_params 2 (- 1) (mod_song\<lparr>instrument_mute := (\<lambda>i. i = 7)\<rparr>)) 7"
proof -
  have h: "interactive mod_song" "interactive2 mod_song"
    by (simp_all add: mod_song_def)
  have n: "get_num_channels mod_song = 4" "instrument_count_of mod_song = 16"
    by (simp_all add: mod_song_def instrument_count_of_def)
  from mute_passes_independent [of 2 5 mod_song]
    mute_passes_independent [of "- 1" 5 "mod_song\<lparr>channel_mute := (\<lambda>i. i = 3)\<rparr>"]
    mute_passes_independent [of 2 "- 1" "mod_song\<lparr>instrument_mute := (\<lambda>i. i = 7)\<rparr>"]
  show ?thesis
    using h by (simp add: n)
qed

text \<open>
  In the variant with \<^verbatim>\<open>RenderParams\<close>, with both indices 0 and no interactive2
  interface, the channel pass runs and the instrument pass does not.
\<close>

theorem mute_passes_guard_counterexample:
  "(0::int) \<le> 0
   \<and> channel_mute (mute_setup_params 0 0 (mod_song\<lparr>interactive2 := False\<rparr>)) 1
   \<and> (1::int) < instrument_count_of (mod_song\<lparr>interactive2 := False\<rparr>)
   \<and> \<not> instrument_mute (mute_setup_params 0 0 (mod_song\<lparr>interactive2 := False\<rparr>)) 1"
  by (simp add: mute_setup_flags mod_song_def instrument_count_of_def)

subsection \<open>C10: the read loop terminates\<close>

text \<open>
  C10, as amended: for every call with \<open>sample_rate \<ge> 1\<close> in which the 32-bit loop index
  cannot wrap before it reaches \<open>output_len\<close>, that is with
  \<open>ceil (output_len / sample_rate) * sample_rate < 2 ^ 32\<close>, the chunked read loop
  terminates after at most \<open>ceil (output_len / sample_rate)\<close> reads, whatever
  \<open>bytes_per_sample\<close> and \<open>stereo_output\<close> are, so that
  \<open>samples_generated \<le> ceil (output_len / sample_rate) * sample_rate\<close>. The bound on
  \<open>sample_rate\<close> is needed: with \<open>sample_rate = 0\<close> and \<open>output_len > 0\<close> the index never
  advances, and the loop only ends when a read throws.
\<close>

theorem render_loop_terminates:
  "(0 < unat sample_rate \<and> chunk_bound output_len sample_rate * unat sample_rate < 2 ^ 32
      \<and> chunk_bound output_len sample_rate < fuel \<longrightarrow>
      (\<exists>r. render_loop_16 fuel output_len sample_rate stereo_output 0 0 0 s = Some r
         \<and> (\<forall>sg' s'. r = Inr (sg', s') \<longrightarrow>
               length (calls s') \<le> length (calls s) + chunk_bound output_len sample_rate
             \<and> unat sg' \<le> chunk_bound output_len sample_rate * unat sample_rate))
    \<and> (\<exists>r. render_loop_float fuel output_len sample_rate stereo_output 0 0 0 s = Some r
         \<and> (\<forall>sg' s'. r = Inr (sg', s') \<longrightarrow>
               length (calls s') \<le> length (calls s) + chunk_bound output_len sample_rate
             \<and> unat sg' \<le> chunk_bound output_len sample_rate * unat sample_rate)))
   \<and> (0 < output_len \<and> (\<forall>k. read_script s k \<noteq> Raise) \<longrightarrow>
        render_loop_16 fuel output_len 0 stereo_output 0 0 0 s = None
      \<and> render_loop_float fuel output_len 0 stereo_output 0 0 0 s = None)"
proof (intro conjI impI)
  assume a: "0 < unat sample_rate \<and> chunk_bound output_len sample_rate * unat sample_rate < 2 ^ 32
      \<and> chunk_bound output_len sample_rate < fuel"
  then show "\<exists>r. render_loop_16 fuel output_len sample_rate stereo_output 0 0 0 s = Some r
         \<and> (\<forall>sg' s'. r = Inr (sg', s') \<longrightarrow>
               length (calls s') \<le> length (calls s) + chunk_bound output_len sample_rate
             \<and> unat sg' \<le> chunk_bound output_len sample_rate * unat sample_rate)"
    by (intro render_loop_16_terminates) simp_all
  from a show "\<exists>r. render_loop_float fuel output_len sample_rate stereo_output 0 0 0 s = Some r
         \<and> (\<forall>sg' s'. r = Inr (sg', s') \<longrightarrow>
               length (calls s') \<le> length (calls s) + chunk_bound output_len sample_rate
             \<and> unat sg' \<le> chunk_bound output_len sample_rate * unat sample_rate)"
    by (intro render_loop_float_terminates) simp_all
next
  assume a: "0 < output_len \<and> (\<forall>k. read_script s k \<noteq> Raise)"
  then show "render_loop_16 fuel output_len 0 stereo_output 0 0 0 s = None"
    by (intro render_loop_16_rate_0) simp_all
  from a show "render_loop_float fuel output_len 0 stereo_output 0 0 0 s = None"
    by (intro render_loop_float_rate_0) simp_all
qed

theorem render_loop_terminates_witness:
  "0 < unat (48000 :: 32 word) \<and> chunk_bound 480000 48000 = 10
   \<and> chunk_bound 480000 48000 * unat (48000 :: 32 word) < 2 ^ 32
   \<and> map_option (map_sum id (\<lambda>(sg, s). (sg, length (calls s))))
        (render_loop_16 11 480000 48000 False 0 0 0 song_3_35) = Some (Inr (160800, 4))
   \<and> map_option (map_sum id (\<lambda>(sg, s). (sg, length (calls s))))
        (render_loop_float 11 480000 48000 False 0 0 0 song_3_35) = Some (Inr (160800, 4))
   \<and> (0 :: 32 word) < 480000
   \<and> render_loop_16 11 480000 0 False 0 0 0 song_3_35 = None
   \<and> render_loop_float 11 480000 0 False 0 0 0 song_3_35 = None"
proof -
  have h: "0 < unat (48000 :: 32 word) \<and> chunk_bound 480000 48000 * unat (48000 :: 32 word) < 2 ^ 32
      \<and> chunk_bound 480000 48000 < 11"
    by (simp add: chunk_bound_def)
  have cb: "chunk_bound 480000 48000 = 10"
    by (simp add: chunk_bound_def)
  have h0: "(0 :: 32 word) < 480000 \<and> (\<forall>k. read_script song_3_35 k \<noteq> Raise)"
    by (simp add: song_3_35_def mod_song_def)
  have r16: "map_option (map_sum id (\<lambda>(sg, s). (sg, length (calls s))))
        (render_loop_16 11 480000 48000 False 0 0 0 song_3_35) = Some (Inr (160800, 4))"
    by (simp add: loop_steps_numeral song_3_35_def mod_song_def chunk_step_def)
  have rfl: "map_option (map_sum id (\<lambda>(sg, s). (sg, length (calls s))))
        (render_loop_float 11 480000 48000 False 0 0 0 song_3_35) = Some (Inr (160800, 4))"
    by (simp add: loop_steps_numeral song_3_35_def mod_song_def chunk_step_def)
  from render_loop_terminates [of 48000 480000 11 False song_3_35]
    render_loop_terminates [of 0 480000 11 False song_3_35] h h0 r16 rfl cb
  show ?thesis
    by simp
qed

text \<open>
  With \<open>output_len = 2 ^ 32 - 1\<close> and \<open>sample_rate = 2 ^ 30\<close> the bound is four reads. The
  index takes the values 0, \<open>2 ^ 30\<close>, \<open>2 ^ 31\<close>, \<open>3 * 2 ^ 30\<close> and then 0 again: a song
  of five full chunks is read six times.
\<close>

theorem render_loop_wraps_counterexample:
  "1 \<le> unat (1073741824 :: 32 word)
   \<and> chunk_bound 4294967295 1073741824 = 4
   \<and> map_option (map_sum id (\<lambda>(sg, s). length (calls s)))
        (render_loop_16 7 4294967295 1073741824 False 0 0 0 song_long) = Some (Inr 6)"
  by (simp add: chunk_bound_def loop_steps_numeral song_long_def mod_song_def chunk_step_def)

end
